theory Spec2Isabelle
  imports Complex_Main "HOL-Library.Word" "HOL-Library.Char_ord" "HOL-Library.List_Lexorder"
    "HOL-Library.Option_ord"
begin

section \<open>TollVault: the ingestion and aggregation core of main.go\<close>

text \<open>
  The development embeds the functions of \<^verbatim>\<open>main.go\<close> that read and write the table
  \<^verbatim>\<open>transactions\<close>: \<^verbatim>\<open>saveTransaction\<close>, \<^verbatim>\<open>getAnalyticsFiltered\<close>, \<^verbatim>\<open>getHistory\<close>,
  \<^verbatim>\<open>processCSV\<close> and \<^verbatim>\<open>handleReset\<close>. The global \<^verbatim>\<open>db\<close> handle becomes an explicit
  table value that is passed in and returned. What the environment decides (the clock, whether
  a statement fails, what the CSV lexer delivers) is an argument of the function it affects.
  Strings are byte lists, as Go strings are; they are ordered bytewise, which is SQLite's
  BINARY collation.
\<close>

subsection \<open>Go's float64\<close>

text \<open>
  A \<^verbatim>\<open>float64\<close> is a finite binary64 value, an infinity or NaN. The two zeros are one value
  here: the program only adds and compares floats, and both zeros behave alike under these.
  \<open>round64\<close> is IEEE 754 round-to-nearest, ties-to-even, on the 53-bit significand with
  gradual underflow; \<open>fadd\<close> is Go's \<^verbatim>\<open>+\<close> and \<open>feq\<close> Go's \<^verbatim>\<open>==\<close> on float64.
\<close>

datatype float64 = Fin rat | PInf | NInf | NaN

function bit_length :: "int \<Rightarrow> int" where
  "bit_length n = (if n \<le> 0 then 0 else 1 + bit_length (n div 2))"
  by pat_completeness auto
termination
  by (relation "measure nat") auto

declare bit_length.simps [simp del]

definition pow2 :: "int \<Rightarrow> rat" where
  "pow2 e = (if 0 \<le> e then 2 ^ nat e else 1 / 2 ^ nat (- e))"

definition ilog2 :: "rat \<Rightarrow> int" where
  "ilog2 q = (let (a, b) = quotient_of q;
                  d = bit_length a - bit_length b
              in if pow2 d \<le> q then d else d - 1)"

definition round_half_even :: "rat \<Rightarrow> int" where
  "round_half_even x = (let f = \<lfloor>x\<rfloor>; r = x - of_int f
     in if r < 1 / 2 then f else if 1 / 2 < r then f + 1 else if even f then f else f + 1)"

definition round64 :: "rat \<Rightarrow> float64" where
  "round64 q = (if q = 0 then Fin 0 else
     let e = max (ilog2 \<bar>q\<bar>) (- 1022);
         u = pow2 (e - 52);
         r = of_int (round_half_even (q / u)) * u
     in if pow2 1024 \<le> \<bar>r\<bar> then (if 0 < q then PInf else NInf) else Fin r)"

fun fadd :: "float64 \<Rightarrow> float64 \<Rightarrow> float64" where
  "fadd NaN y = NaN"
| "fadd x NaN = NaN"
| "fadd PInf NInf = NaN"
| "fadd NInf PInf = NaN"
| "fadd PInf y = PInf"
| "fadd x PInf = PInf"
| "fadd NInf y = NInf"
| "fadd x NInf = NInf"
| "fadd (Fin a) (Fin b) = round64 (a + b)"

definition feq :: "float64 \<Rightarrow> float64 \<Rightarrow> bool" where
  "feq x y = (x \<noteq> NaN \<and> y \<noteq> NaN \<and> x = y)"

text \<open>Go's \<^verbatim>\<open>int\<close> on the 64-bit targets; \<^verbatim>\<open>++\<close> wraps.\<close>

type_synonym go_int = "64 word"

subsection \<open>Types of main.go\<close>

record Transaction =
  EnrolmentNoDate :: string
  TotalAmountCharged :: float64
  GSTAmount :: float64
  OperatorID :: string
  ResidentName :: string
  UploadDate :: string

record SlabCounts =
  Count125 :: go_int
  Count75 :: go_int
  Count0 :: go_int

record HistoryRow =
  Period :: string
  Revenue :: float64
  GST :: float64
  hCount125 :: go_int
  hCount75 :: go_int
  hCount0 :: go_int
  Total :: go_int

record UploadResult =
  Filename :: string
  Rows :: go_int
  uRevenue :: float64
  uGST :: float64
  Slabs :: SlabCounts

subsection \<open>The table \<^verbatim>\<open>transactions\<close>\<close>

text \<open>
  One record per table row, in rowid order (\<^verbatim>\<open>id INTEGER PRIMARY KEY AUTOINCREMENT\<close> only
  grows, so this is insertion order; the id itself is never read). The two REAL columns are
  nullable: SQLite stores a NaN that is bound to a statement as NULL.
\<close>

record table_row =
  enrolment_no_date :: string
  total_amount_charged :: "float64 option"
  gst_amount :: "float64 option"
  operator_id :: string
  resident_name :: string
  upload_date :: string

type_synonym database = "table_row list"

definition bind_double :: "float64 \<Rightarrow> float64 option" where
  "bind_double x = (if x = NaN then None else Some x)"

definition row_of :: "Transaction \<Rightarrow> table_row" where
  "row_of t = \<lparr> enrolment_no_date = EnrolmentNoDate t,
                total_amount_charged = bind_double (TotalAmountCharged t),
                gst_amount = bind_double (GSTAmount t),
                operator_id = OperatorID t,
                resident_name = ResidentName t,
                upload_date = UploadDate t \<rparr>"

definition keys :: "database \<Rightarrow> string list" where
  "keys db = map enrolment_no_date db"

text \<open>\<^verbatim>\<open>initDB\<close> on a fresh file: \<^verbatim>\<open>CREATE TABLE IF NOT EXISTS\<close> leaves an empty table.\<close>

definition initDB :: database where
  "initDB = []"

datatype db_error = ExecFailed

text \<open>
  \<^verbatim>\<open>saveTransaction\<close>: one \<^verbatim>\<open>INSERT ... ON CONFLICT(enrolment_no_date) DO NOTHING\<close>.
  \<open>exec_fails\<close> says whether \<^verbatim>\<open>db.Exec\<close> returns an error (disk, lock, closed handle);
  a failed statement changes nothing. The \<^verbatim>\<open>sql.Result\<close> of \<^verbatim>\<open>db.Exec\<close> is dropped by
  the source (\<^verbatim>\<open>_, err :=\<close>); only the error is returned.
\<close>

definition saveTransaction :: "bool \<Rightarrow> Transaction \<Rightarrow> database \<Rightarrow> database \<times> db_error option" where
  "saveTransaction exec_fails t db =
     (if exec_fails then (db, Some ExecFailed)
      else if EnrolmentNoDate t \<in> set (keys db) then (db, None)
      else (db @ [row_of t], None))"

subsection \<open>\<^verbatim>\<open>time.Now().Format("2006-01-02")\<close>\<close>

record civil_date =
  year :: nat
  month :: nat
  day :: nat

fun decimal :: "nat \<Rightarrow> string" where
  "decimal n = (if n < 10 then [''0123456789'' ! n]
                else decimal (n div 10) @ [''0123456789'' ! (n mod 10)])"

declare decimal.simps [simp del]

definition zero_pad :: "nat \<Rightarrow> nat \<Rightarrow> string" where
  "zero_pad w n = replicate (w - length (decimal n)) (CHR ''0'') @ decimal n"

definition Format_2006_01_02 :: "civil_date \<Rightarrow> string" where
  "Format_2006_01_02 d = zero_pad 4 (year d) @ ''-'' @ zero_pad 2 (month d) @ ''-'' @ zero_pad 2 (day d)"

subsection \<open>\<^verbatim>\<open>handleReset\<close>\<close>

datatype http_response = Redirect string nat | HttpError string nat

fun max_string :: "string list \<Rightarrow> string option" where
  "max_string [] = None"
| "max_string (x # xs) = Some (fold max xs x)"

text \<open>
  \<^verbatim>\<open>SELECT MAX(upload_date)\<close> scanned into a \<^verbatim>\<open>sql.NullString\<close>: NULL on an empty table;
  when the query fails the ignored \<^verbatim>\<open>Scan\<close> error leaves the variable invalid as well.
\<close>

definition select_max_upload_date :: "bool \<Rightarrow> database \<Rightarrow> string option" where
  "select_max_upload_date query_fails db =
     (if query_fails then None else max_string (map upload_date db))"

text \<open>
  The handler, as a function of the request method, of whether its two statements fail, and
  of the table. It answers with a redirect to \<^verbatim>\<open>/\<close> (303) or with an error status; the text
  of the 500 answer is cut to its fixed prefix.
\<close>

definition handleReset :: "string \<Rightarrow> bool \<Rightarrow> bool \<Rightarrow> database \<Rightarrow> database \<times> http_response" where
  "handleReset http_method query_fails exec_fails db =
     (if http_method \<noteq> ''POST'' then (db, HttpError ''Method not allowed'' 405)
      else case select_max_upload_date query_fails db of
             None \<Rightarrow> (db, Redirect ''/'' 303)
           | Some lastDate \<Rightarrow>
               if lastDate = [] then (db, Redirect ''/'' 303)
               else if exec_fails then (db, HttpError ''Reset error'' 500)
               else (filter (\<lambda>r. upload_date r \<noteq> lastDate) db, Redirect ''/'' 303))"

subsection \<open>Store states the program can reach\<close>

text \<open>
  The table starts empty, rows are added only by \<^verbatim>\<open>saveTransaction\<close>, whose one call site
  passes today's formatted date as \<^verbatim>\<open>UploadDate\<close>, and removed only by \<^verbatim>\<open>handleReset\<close>.
\<close>

inductive reachable :: "database \<Rightarrow> bool" where
  reach_init: "reachable initDB"
| reach_save: "reachable db \<Longrightarrow> UploadDate t = Format_2006_01_02 now
     \<Longrightarrow> reachable (fst (saveTransaction exec_fails t db))"
| reach_reset: "reachable db \<Longrightarrow> reachable (fst (handleReset http_method query_fails exec_fails db))"

text \<open>A sequence of insert attempts, each with its own outcome of \<^verbatim>\<open>db.Exec\<close>.\<close>

fun save_all :: "(bool \<times> Transaction) list \<Rightarrow> database \<Rightarrow> database" where
  "save_all [] db = db"
| "save_all ((exec_fails, t) # ops) db = save_all ops (fst (saveTransaction exec_fails t db))"

subsection \<open>\<^verbatim>\<open>strings.TrimSpace\<close>\<close>

text \<open>
  \<^verbatim>\<open>TrimSpace\<close> removes the leading and the trailing white-space runes of a string. On the
  bytes of the string these are the UTF-8 encodings of the code points for which
  \<^verbatim>\<open>unicode.IsSpace\<close> holds: the six of ASCII, U+0085, U+00A0, U+1680, U+2000 to U+200A,
  U+2028, U+2029, U+202F, U+205F and U+3000.
\<close>

definition space_runes :: "string list" where
  "space_runes =
     [[CHR 0x09], [CHR 0x0A], [CHR 0x0B], [CHR 0x0C], [CHR 0x0D], [CHR 0x20],
      [CHR 0xC2, CHR 0x85], [CHR 0xC2, CHR 0xA0], [CHR 0xE1, CHR 0x9A, CHR 0x80],
      [CHR 0xE2, CHR 0x80, CHR 0x80], [CHR 0xE2, CHR 0x80, CHR 0x81],
      [CHR 0xE2, CHR 0x80, CHR 0x82], [CHR 0xE2, CHR 0x80, CHR 0x83],
      [CHR 0xE2, CHR 0x80, CHR 0x84], [CHR 0xE2, CHR 0x80, CHR 0x85],
      [CHR 0xE2, CHR 0x80, CHR 0x86], [CHR 0xE2, CHR 0x80, CHR 0x87],
      [CHR 0xE2, CHR 0x80, CHR 0x88], [CHR 0xE2, CHR 0x80, CHR 0x89],
      [CHR 0xE2, CHR 0x80, CHR 0x8A], [CHR 0xE2, CHR 0x80, CHR 0xA8],
      [CHR 0xE2, CHR 0x80, CHR 0xA9], [CHR 0xE2, CHR 0x80, CHR 0xAF],
      [CHR 0xE2, CHR 0x81, CHR 0x9F], [CHR 0xE3, CHR 0x80, CHR 0x80]]"

text \<open>The number of bytes of the white-space rune a string starts with; 0 when there is none.\<close>

fun leading_rune :: "string list \<Rightarrow> string \<Rightarrow> nat" where
  "leading_rune [] s = 0"
| "leading_rune (w # ws) s = (if w \<noteq> [] \<and> take (length w) s = w then length w else leading_rune ws s)"

function trim_left :: "string list \<Rightarrow> string \<Rightarrow> string" where
  "trim_left ws s = (if leading_rune ws s = 0 then s else trim_left ws (drop (leading_rune ws s) s))"
  by pat_completeness auto
termination
proof (relation "measure (\<lambda>(ws, s). length s)")
  show "wf (measure (\<lambda>(ws, s). length s))" by simp
next
  fix ws :: "string list" and s :: string
  assume n: "leading_rune ws s \<noteq> 0"
  have "leading_rune ws s \<noteq> 0 \<Longrightarrow> s \<noteq> []"
    by (induction ws) (auto split: if_splits)
  with n show "((ws, drop (leading_rune ws s) s), (ws, s)) \<in> measure (\<lambda>(ws, s). length s)"
    by simp
qed

declare trim_left.simps [simp del]

definition TrimSpace :: "string \<Rightarrow> string" where
  "TrimSpace s = rev (trim_left (map rev space_runes) (rev (trim_left space_runes s)))"

subsection \<open>\<^verbatim>\<open>strconv.ParseFloat\<close>\<close>

text \<open>
  The parser is an argument of the model. Its result is one of the three outcomes of
  \<^verbatim>\<open>strconv.ParseFloat(s, 64)\<close>: a value and no error; \<^verbatim>\<open>ErrSyntax\<close>, returned with the value 0;
  \<^verbatim>\<open>ErrRange\<close>, returned with an infinity. \<open>returned_float\<close> is the first result, the one
  \<^verbatim>\<open>processCSV\<close> keeps (\<^verbatim>\<open>amt, _ :=\<close>).
\<close>

datatype parse_outcome = Parsed float64 | ErrSyntax | ErrRange bool

fun returned_float :: "parse_outcome \<Rightarrow> float64" where
  "returned_float (Parsed x) = x"
| "returned_float ErrSyntax = Fin 0"
| "returned_float (ErrRange negative) = (if negative then NInf else PInf)"

subsection \<open>\<^verbatim>\<open>encoding/csv\<close>: the reader\<close>

text \<open>
  The byte stream is taken after lexing: the sequence of what the reader finds line by line,
  either the fields of a record or a failure (a quoting error, or an error of the underlying
  stream), and end of file after the last one. \<open>Read\<close> is \<^verbatim>\<open>(*csv.Reader).Read\<close> on that
  sequence, with the check on \<^verbatim>\<open>FieldsPerRecord\<close>: \<^verbatim>\<open>csv.NewReader\<close> leaves it 0, the first
  record sets it, and every later record of another length is \<^verbatim>\<open>ErrFieldCount\<close>.
\<close>

datatype decode_error = ErrFieldCount | ErrQuote | ErrStream

datatype csv_event = Fields "string list" | Broken decode_error

record reader =
  pending :: "csv_event list"
  FieldsPerRecord :: int

datatype read_result = Record "string list" | ReadError decode_error | EOF

definition NewReader :: "csv_event list \<Rightarrow> reader" where
  "NewReader doc = \<lparr> pending = doc, FieldsPerRecord = 0 \<rparr>"

definition Read :: "reader \<Rightarrow> read_result \<times> reader" where
  "Read r =
     (case pending r of
        [] \<Rightarrow> (EOF, r)
      | Broken e # rest \<Rightarrow> (ReadError e, r\<lparr>pending := rest\<rparr>)
      | Fields fs # rest \<Rightarrow>
          if 0 < FieldsPerRecord r then
            (if int (length fs) \<noteq> FieldsPerRecord r then (ReadError ErrFieldCount, r\<lparr>pending := rest\<rparr>)
             else (Record fs, r\<lparr>pending := rest\<rparr>))
          else if FieldsPerRecord r = 0 then
            (Record fs, r\<lparr>pending := rest, FieldsPerRecord := int (length fs)\<rparr>)
          else (Record fs, r\<lparr>pending := rest\<rparr>))"

subsection \<open>\<^verbatim>\<open>processCSV\<close>\<close>

datatype ingest_error = ErrEOF | DecodeError decode_error | MissingColumn string | IndexOutOfRange

text \<open>\<^verbatim>\<open>hm[strings.TrimSpace(h)] = i\<close> for each header in turn; a later duplicate overwrites.\<close>

definition header_map :: "string list \<Rightarrow> (string \<rightharpoonup> nat)" where
  "header_map headers = fold (\<lambda>(i, h) hm. hm(TrimSpace h \<mapsto> i)) (enumerate 0 headers) Map.empty"

text \<open>\<^verbatim>\<open>hm[k]\<close>: a Go map yields 0 for a key it does not hold.\<close>

definition lookup :: "(string \<rightharpoonup> nat) \<Rightarrow> string \<Rightarrow> nat" where
  "lookup hm k = (case hm k of None \<Rightarrow> 0 | Some i \<Rightarrow> i)"

text \<open>\<^verbatim>\<open>rec[i]\<close>: \<open>None\<close> is the run-time panic of an index out of range.\<close>

definition index :: "string list \<Rightarrow> nat \<Rightarrow> string option" where
  "index rec i = (if i < length rec then Some (rec ! i) else None)"

definition required_columns :: "string list" where
  "required_columns = [''ENROLMENT_NO_DATE'', ''TOTAL_AMOUNT_CHARGED'', ''GST_AMOUNT'',
                       ''OPERATOR_ID'', ''RESIDENT_NAME'']"

fun first_missing :: "(string \<rightharpoonup> nat) \<Rightarrow> string list \<Rightarrow> string option" where
  "first_missing hm [] = None"
| "first_missing hm (req # reqs) = (if hm req = None then Some req else first_missing hm reqs)"

text \<open>The \<^verbatim>\<open>switch\<close> on the amount, which both loops of the source carry.\<close>

definition count_slab :: "float64 \<Rightarrow> SlabCounts \<Rightarrow> SlabCounts" where
  "count_slab a s =
     (if feq a (Fin 125) then s\<lparr>Count125 := Count125 s + 1\<rparr>
      else if feq a (Fin 75) then s\<lparr>Count75 := Count75 s + 1\<rparr>
      else if feq a (Fin 0) then s\<lparr>Count0 := Count0 s + 1\<rparr>
      else s)"

definition no_slabs :: SlabCounts where
  "no_slabs = \<lparr> Count125 = 0, Count75 = 0, Count0 = 0 \<rparr>"

definition empty_result :: UploadResult where
  "empty_result = \<lparr> Filename = [], Rows = 0, uRevenue = Fin 0, uGST = Fin 0, Slabs = no_slabs \<rparr>"

text \<open>
  What the row loop does to the summary for one record: \<^verbatim>\<open>result.Rows++\<close>,
  \<^verbatim>\<open>result.Revenue += amt\<close>, \<^verbatim>\<open>result.GST += gst\<close> and the \<^verbatim>\<open>switch\<close>.
\<close>

definition count_row :: "float64 \<times> float64 \<Rightarrow> UploadResult \<Rightarrow> UploadResult" where
  "count_row p result = result\<lparr> Rows := Rows result + 1,
                                uRevenue := fadd (uRevenue result) (fst p),
                                uGST := fadd (uGST result) (snd p),
                                Slabs := count_slab (fst p) (Slabs result) \<rparr>"

text \<open>
  The body of the row loop for one record. All five index expressions are evaluated before
  \<^verbatim>\<open>saveTransaction\<close> is called, so a panic leaves the table as it was. The error that
  \<^verbatim>\<open>saveTransaction\<close> returns is dropped.
\<close>

definition process_record ::
  "(string \<Rightarrow> parse_outcome) \<Rightarrow> string \<Rightarrow> bool \<Rightarrow> (string \<rightharpoonup> nat) \<Rightarrow> string list
     \<Rightarrow> database \<Rightarrow> UploadResult \<Rightarrow> (database \<times> UploadResult) option" where
  "process_record ParseFloat today exec_fails hm rec db result =
     (case (index rec (lookup hm ''TOTAL_AMOUNT_CHARGED''), index rec (lookup hm ''GST_AMOUNT''),
            index rec (lookup hm ''ENROLMENT_NO_DATE''), index rec (lookup hm ''OPERATOR_ID''),
            index rec (lookup hm ''RESIDENT_NAME'')) of
        (Some amt_s, Some gst_s, Some enrol, Some operator, Some resident) \<Rightarrow>
          let amt = returned_float (ParseFloat amt_s);
              gst = returned_float (ParseFloat gst_s);
              db' = fst (saveTransaction exec_fails
                      \<lparr> EnrolmentNoDate = enrol, TotalAmountCharged = amt, GSTAmount = gst,
                        OperatorID = operator, ResidentName = resident, UploadDate = today \<rparr> db)
          in Some (db', count_row (amt, gst) result)
      | _ \<Rightarrow> None)"

text \<open>
  The row loop. \<open>write_fails i\<close> says whether the \<^verbatim>\<open>db.Exec\<close> of data row \<open>i\<close> (from 0)
  returns an error.
\<close>

function rows_loop ::
  "(string \<Rightarrow> parse_outcome) \<Rightarrow> string \<Rightarrow> (nat \<Rightarrow> bool) \<Rightarrow> (string \<rightharpoonup> nat) \<Rightarrow> reader \<Rightarrow> nat
     \<Rightarrow> database \<Rightarrow> UploadResult \<Rightarrow> database \<times> (ingest_error + UploadResult)" where
  "rows_loop ParseFloat today write_fails hm rd i db result =
     (case Read rd of
        (EOF, rd') \<Rightarrow> (db, Inr result)
      | (ReadError e, rd') \<Rightarrow> (db, Inl (DecodeError e))
      | (Record rec, rd') \<Rightarrow>
          (case process_record ParseFloat today (write_fails i) hm rec db result of
             None \<Rightarrow> (db, Inl IndexOutOfRange)
           | Some (db', result') \<Rightarrow>
               rows_loop ParseFloat today write_fails hm rd' (Suc i) db' result'))"
  by pat_completeness auto
termination
  by (relation "measure (\<lambda>(ParseFloat, today, write_fails, hm, rd, i, db, result). length (pending rd))")
     (auto simp: Read_def split: list.splits csv_event.splits if_splits)

declare rows_loop.simps [simp del]

definition processCSV ::
  "(string \<Rightarrow> parse_outcome) \<Rightarrow> civil_date \<Rightarrow> (nat \<Rightarrow> bool) \<Rightarrow> csv_event list \<Rightarrow> database
     \<Rightarrow> database \<times> (ingest_error + UploadResult)" where
  "processCSV ParseFloat now write_fails doc db =
     (case Read (NewReader doc) of
        (EOF, rd) \<Rightarrow> (db, Inl ErrEOF)
      | (ReadError e, rd) \<Rightarrow> (db, Inl (DecodeError e))
      | (Record headers, rd) \<Rightarrow>
          let hm = header_map headers in
          (case first_missing hm required_columns of
             Some req \<Rightarrow> (db, Inl (MissingColumn req))
           | None \<Rightarrow> rows_loop ParseFloat (Format_2006_01_02 now) write_fails hm rd 0 db empty_result))"

subsection \<open>\<^verbatim>\<open>getAnalyticsFiltered\<close>\<close>

text \<open>
  \<^verbatim>\<open>rows.Scan(&a, &g)\<close> into two fresh zero variables, its error ignored: \<^verbatim>\<open>Scan\<close> stops at
  the first column it cannot convert, and a NULL cannot be converted to a \<^verbatim>\<open>float64\<close>.
\<close>

definition Scan_amounts :: "table_row \<Rightarrow> float64 \<times> float64" where
  "Scan_amounts r =
     (case total_amount_charged r of
        None \<Rightarrow> (Fin 0, Fin 0)
      | Some a \<Rightarrow> (case gst_amount r of None \<Rightarrow> (a, Fin 0) | Some g \<Rightarrow> (a, g)))"

fun scan_loop :: "(float64 \<times> float64) list \<Rightarrow> float64 \<times> float64 \<times> SlabCounts \<times> go_int
    \<Rightarrow> float64 \<times> float64 \<times> SlabCounts \<times> go_int" where
  "scan_loop [] acc = acc"
| "scan_loop ((a, g) # rows) (revenue, gst, s, n) =
     scan_loop rows (fadd revenue a, fadd gst g, count_slab a s, n + 1)"

text \<open>
  The argument \<^verbatim>\<open>where\<close> of the source is SQL text; here it is the condition that text
  states (\<open>None\<close> for the empty text). A query that fails yields zeros.
\<close>

definition getAnalyticsFiltered ::
  "bool \<Rightarrow> (table_row \<Rightarrow> bool) option \<Rightarrow> database \<Rightarrow> float64 \<times> float64 \<times> SlabCounts \<times> go_int" where
  "getAnalyticsFiltered query_fails cond db =
     (if query_fails then (Fin 0, Fin 0, no_slabs, 0)
      else scan_loop (map Scan_amounts (case cond of None \<Rightarrow> db | Some P \<Rightarrow> filter P db))
             (Fin 0, Fin 0, no_slabs, 0))"

subsection \<open>\<^verbatim>\<open>getHistory\<close>\<close>

text \<open>
  SQLite's \<^verbatim>\<open>strftime\<close> and its aggregate \<^verbatim>\<open>SUM\<close> over a REAL column are arguments of the
  model: \<open>strftime fmt d\<close> is the text for a date text, or NULL; \<open>sql_sum vs\<close> is the sum of the
  values that are not NULL, or NULL.
\<close>

definition groupExpr :: "(string \<Rightarrow> string \<Rightarrow> string option) \<Rightarrow> string \<Rightarrow> string \<Rightarrow> string option" where
  "groupExpr strftime period d =
     (if period = ''week'' then strftime ''%Y-W%W'' d
      else if period = ''month'' then strftime ''%Y-%m'' d
      else if period = ''year'' then strftime ''%Y'' d
      else Some d)"

definition date_filter :: "string \<Rightarrow> string \<Rightarrow> table_row \<Rightarrow> bool" where
  "date_filter fromDate toDate r =
     (if fromDate \<noteq> [] \<and> toDate \<noteq> [] then fromDate \<le> upload_date r \<and> upload_date r \<le> toDate
      else if fromDate \<noteq> [] then fromDate \<le> upload_date r
      else if toDate \<noteq> [] then upload_date r \<le> toDate
      else True)"

text \<open>
  The two dates are spliced into the statement between single quotes, unescaped. The text
  between the quotes is the string literal meant when it holds no quote and no NUL byte.
\<close>

definition plain_literal :: "string \<Rightarrow> bool" where
  "plain_literal s = (CHR 0x27 \<notin> set s \<and> CHR 0x00 \<notin> set s)"

definition period_of :: "(string \<Rightarrow> string \<Rightarrow> string option) \<Rightarrow> string \<Rightarrow> table_row \<Rightarrow> string option" where
  "period_of strftime period r = groupExpr strftime period (upload_date r)"

text \<open>\<^verbatim>\<open>GROUP BY period ORDER BY period DESC\<close>: NULL sorts below every text.\<close>

definition periods_desc :: "string option list \<Rightarrow> string option list" where
  "periods_desc ks = rev (sort (remdups ks))"

record group_result =
  g_period :: "string option"
  g_revenue :: "float64 option"
  g_gst :: "float64 option"
  g_c125 :: nat
  g_c75 :: nat
  g_c0 :: nat
  g_total :: nat

definition aggregate_group :: "(float64 option list \<Rightarrow> float64 option) \<Rightarrow> string option \<Rightarrow> table_row list \<Rightarrow> group_result" where
  "aggregate_group sql_sum k rows =
     \<lparr> g_period = k,
       g_revenue = sql_sum (map total_amount_charged rows),
       g_gst = sql_sum (map gst_amount rows),
       g_c125 = length (filter (\<lambda>r. total_amount_charged r = Some (Fin 125)) rows),
       g_c75 = length (filter (\<lambda>r. total_amount_charged r = Some (Fin 75)) rows),
       g_c0 = length (filter (\<lambda>r. total_amount_charged r = Some (Fin 0)) rows),
       g_total = length rows \<rparr>"

definition zero_HistoryRow :: HistoryRow where
  "zero_HistoryRow = \<lparr> Period = [], Revenue = Fin 0, GST = Fin 0,
                        hCount125 = 0, hCount75 = 0, hCount0 = 0, Total = 0 \<rparr>"

text \<open>
  \<^verbatim>\<open>rows.Scan\<close> of the seven columns into a fresh \<^verbatim>\<open>HistoryRow\<close>, its error ignored: the
  fields after the first NULL keep their zero value.
\<close>

definition Scan_history :: "group_result \<Rightarrow> HistoryRow" where
  "Scan_history g =
     (case g_period g of
        None \<Rightarrow> zero_HistoryRow
      | Some p \<Rightarrow>
         (case g_revenue g of
            None \<Rightarrow> zero_HistoryRow\<lparr>Period := p\<rparr>
          | Some rv \<Rightarrow>
             (case g_gst g of
                None \<Rightarrow> zero_HistoryRow\<lparr>Period := p, Revenue := rv\<rparr>
              | Some gs \<Rightarrow>
                  \<lparr> Period = p, Revenue = rv, GST = gs,
                    hCount125 = of_nat (g_c125 g), hCount75 = of_nat (g_c75 g),
                    hCount0 = of_nat (g_c0 g), Total = of_nat (g_total g) \<rparr>)))"

definition query_groups ::
  "(string \<Rightarrow> string \<Rightarrow> string option) \<Rightarrow> (float64 option list \<Rightarrow> float64 option) \<Rightarrow> string
     \<Rightarrow> string \<Rightarrow> string \<Rightarrow> database \<Rightarrow> group_result list" where
  "query_groups strftime sql_sum period fromDate toDate db =
     (let rows = filter (date_filter fromDate toDate) db
      in map (\<lambda>k. aggregate_group sql_sum k (filter (\<lambda>r. period_of strftime period r = k) rows))
           (periods_desc (map (period_of strftime period) rows)))"

text \<open>
  The text of the statement, as \<^verbatim>\<open>fmt.Sprintf\<close> builds it: the grouping expression and the
  \<^verbatim>\<open>WHERE\<close> clause are spliced into the fixed text, and the two dates go between single
  quotes as they are.
\<close>

definition quoted :: "string \<Rightarrow> string" where
  "quoted s = [CHR 0x27] @ s @ [CHR 0x27]"

definition groupExpr_text :: "string \<Rightarrow> string" where
  "groupExpr_text period =
     (if period = ''week'' then ''strftime('' @ quoted ''%Y-W%W'' @ '', upload_date)''
      else if period = ''month'' then ''strftime('' @ quoted ''%Y-%m'' @ '', upload_date)''
      else if period = ''year'' then ''strftime('' @ quoted ''%Y'' @ '', upload_date)''
      else ''upload_date'')"

definition where_text :: "string \<Rightarrow> string \<Rightarrow> string" where
  "where_text fromDate toDate =
     (if fromDate \<noteq> [] \<and> toDate \<noteq> [] then
        '' WHERE upload_date >= '' @ quoted fromDate @ '' AND upload_date <= '' @ quoted toDate
      else if fromDate \<noteq> [] then '' WHERE upload_date >= '' @ quoted fromDate
      else if toDate \<noteq> [] then '' WHERE upload_date <= '' @ quoted toDate
      else [])"

definition line_break :: string where
  "line_break = [CHR 0x0A, CHR 0x09, CHR 0x09]"

definition query_text :: "string \<Rightarrow> string \<Rightarrow> string \<Rightarrow> string" where
  "query_text period fromDate toDate =
     ''SELECT '' @ groupExpr_text period @ '' AS period,'' @ line_break @
     ''SUM(total_amount_charged) AS revenue,'' @ line_break @
     ''SUM(gst_amount) AS gst,'' @ line_break @
     ''SUM(CASE WHEN total_amount_charged = 125 THEN 1 ELSE 0 END) AS c125,'' @ line_break @
     ''SUM(CASE WHEN total_amount_charged = 75  THEN 1 ELSE 0 END) AS c75,'' @ line_break @
     ''SUM(CASE WHEN total_amount_charged = 0   THEN 1 ELSE 0 END) AS c0,'' @ line_break @
     ''COUNT('' @ ''*'' @ '') AS total'' @ line_break @
     ''FROM transactions'' @ where_text fromDate toDate @ line_break @
     ''GROUP BY period'' @ line_break @
     ''ORDER BY period DESC''"

text \<open>
  \<^verbatim>\<open>db.Query\<close> of that text and the loop over its rows. When neither date holds a quote or a
  NUL byte, the text is the statement of \<open>query_groups\<close>: \<open>query_fails\<close> says whether it
  fails, and then the result is \<^verbatim>\<open>nil\<close>. When one does, the text is some other statement;
  what SQLite answers for it, and the loop makes of the answer, is the argument
  \<open>other_statement\<close>.
\<close>

definition getHistory ::
  "(string \<Rightarrow> string \<Rightarrow> string option) \<Rightarrow> (float64 option list \<Rightarrow> float64 option)
     \<Rightarrow> (string \<Rightarrow> database \<Rightarrow> HistoryRow list) \<Rightarrow> bool \<Rightarrow> string
     \<Rightarrow> string \<Rightarrow> string \<Rightarrow> database \<Rightarrow> HistoryRow list" where
  "getHistory strftime sql_sum other_statement query_fails period fromDate toDate db =
     (if plain_literal fromDate \<and> plain_literal toDate then
        (if query_fails then []
         else map Scan_history (query_groups strftime sql_sum period fromDate toDate db))
      else other_statement (query_text period fromDate toDate) db)"

subsection \<open>SQLite's \<^verbatim>\<open>strftime\<close> on calendar dates\<close>

text \<open>
  \<open>sqlite_strftime\<close> decides the conversions the program uses, \<^verbatim>\<open>%Y\<close>, \<^verbatim>\<open>%m\<close>, \<^verbatim>\<open>%d\<close> and
  \<^verbatim>\<open>%W\<close>, on the texts \<^verbatim>\<open>YYYY-MM-DD\<close> of calendar dates from year 1 on, which are the texts
  \<open>Format_2006_01_02\<close> writes. \<^verbatim>\<open>%W\<close> is the week of the year, computed as SQLite does:
  (days since 1 January + 7 - days since Monday) div 7. For every other date text and every
  other conversion the answer is that of the argument \<open>other\<close>.
\<close>

definition is_leap :: "nat \<Rightarrow> bool" where
  "is_leap y = ((y mod 4 = 0 \<and> y mod 100 \<noteq> 0) \<or> y mod 400 = 0)"

definition days_in_month :: "nat \<Rightarrow> nat \<Rightarrow> nat" where
  "days_in_month y m = [31, if is_leap y then 29 else 28, 31, 30, 31, 30, 31, 31, 30, 31, 30, 31] ! (m - 1)"

definition valid_date :: "civil_date \<Rightarrow> bool" where
  "valid_date d = (1 \<le> year d \<and> year d \<le> 9999 \<and> 1 \<le> month d \<and> month d \<le> 12 \<and>
                   1 \<le> day d \<and> day d \<le> days_in_month (year d) (month d))"

definition days_after_jan01 :: "civil_date \<Rightarrow> nat" where
  "days_after_jan01 d = sum_list (map (days_in_month (year d)) [1..<month d]) + (day d - 1)"

text \<open>Days since 0001-01-01 of the proleptic Gregorian calendar, which is a Monday.\<close>

definition days_since_epoch :: "civil_date \<Rightarrow> nat" where
  "days_since_epoch d =
     (let y = year d - 1
      in 365 * y + y div 4 - y div 100 + y div 400 + days_after_jan01 d)"

definition days_after_monday :: "civil_date \<Rightarrow> nat" where
  "days_after_monday d = days_since_epoch d mod 7"

definition week_W :: "civil_date \<Rightarrow> nat" where
  "week_W d = (days_after_jan01 d + 7 - days_after_monday d) div 7"

definition digit_value :: "char \<Rightarrow> nat option" where
  "digit_value c = (if CHR ''0'' \<le> c \<and> c \<le> CHR ''9'' then Some (of_char c - 48) else None)"

fun number_of :: "char list \<Rightarrow> nat option" where
  "number_of [] = None"
| "number_of cs = (if list_all (\<lambda>c. digit_value c \<noteq> None) cs
                   then Some (foldl (\<lambda>n c. 10 * n + the (digit_value c)) 0 cs) else None)"

definition parse_date :: "string \<Rightarrow> civil_date option" where
  "parse_date s =
     (if length s = 10 \<and> s ! 4 = CHR ''-'' \<and> s ! 7 = CHR ''-'' then
        (case (number_of (take 4 s), number_of (take 2 (drop 5 s)), number_of (drop 8 s)) of
           (Some y, Some m, Some d) \<Rightarrow>
             (let cd = \<lparr> year = y, month = m, day = d \<rparr> in if valid_date cd then Some cd else None)
         | _ \<Rightarrow> None)
      else None)"

definition conversion :: "char \<Rightarrow> civil_date \<Rightarrow> string option" where
  "conversion c d =
     (if c = CHR ''Y'' then Some (zero_pad 4 (year d))
      else if c = CHR ''m'' then Some (zero_pad 2 (month d))
      else if c = CHR ''d'' then Some (zero_pad 2 (day d))
      else if c = CHR ''W'' then Some (zero_pad 2 (week_W d))
      else None)"

fun format_date :: "string \<Rightarrow> civil_date \<Rightarrow> string option" where
  "format_date [] d = Some []"
| "format_date [c] d = (if c = CHR ''%'' then None else Some [c])"
| "format_date (c # f # cs) d =
     (if c = CHR ''%'' then
        (case (conversion f d, format_date cs d) of
           (Some s, Some t) \<Rightarrow> Some (s @ t) | _ \<Rightarrow> None)
      else map_option ((#) c) (format_date (f # cs) d))"

definition sqlite_strftime :: "(string \<Rightarrow> string \<Rightarrow> string option) \<Rightarrow> string \<Rightarrow> string \<Rightarrow> string option" where
  "sqlite_strftime other fmt s =
     (case parse_date s of
        None \<Rightarrow> other fmt s
      | Some d \<Rightarrow> (case format_date fmt d of None \<Rightarrow> other fmt s | Some t \<Rightarrow> Some t))"

text \<open>
  The days from 1 January to the first Monday of a year, and the week number in words: 00
  before that Monday, then 01 for the seven days from it, and so on.
\<close>

definition first_monday :: "nat \<Rightarrow> nat" where
  "first_monday y = (7 - days_after_monday \<lparr> year = y, month = 1, day = 1 \<rparr>) mod 7"

definition week_from_first_monday :: "civil_date \<Rightarrow> nat" where
  "week_from_first_monday d =
     (if days_after_jan01 d < first_monday (year d) then 0
      else (days_after_jan01 d - first_monday (year d)) div 7 + 1)"

text \<open>
  \<^verbatim>\<open>SUM\<close> over a group of one row with a finite value is that value, and over a group of one
  row with NULL it is NULL. For every other group the answer is that of the argument
  \<open>other\<close>.
\<close>

fun sum_single :: "(float64 option list \<Rightarrow> float64 option) \<Rightarrow> float64 option list \<Rightarrow> float64 option" where
  "sum_single other [Some (Fin q)] = Some (Fin q)"
| "sum_single other [None] = None"
| "sum_single other vs = other vs"

subsection \<open>The ISO 8601 week of the year\<close>

text \<open>
  The week number the specification names, for comparison with \<open>week_W\<close>: weeks run from
  Monday, and week 1 of a year is the one that holds its first Thursday. The result is the
  ISO year with the week, from 1 to 53.
\<close>

definition jan01_after_monday :: "nat \<Rightarrow> nat" where
  "jan01_after_monday y = days_after_monday \<lparr> year = y, month = 1, day = 1 \<rparr>"

definition iso_weeks_in_year :: "nat \<Rightarrow> nat" where
  "iso_weeks_in_year y =
     (if jan01_after_monday y = 3 \<or> (is_leap y \<and> jan01_after_monday y = 2) then 53 else 52)"

definition iso_week :: "civil_date \<Rightarrow> nat \<times> nat" where
  "iso_week d =
     (let w = (days_after_jan01 d + 1 + 10 - (days_after_monday d + 1)) div 7
      in if w < 1 then (year d - 1, iso_weeks_in_year (year d - 1))
         else if iso_weeks_in_year (year d) < w then (year d + 1, 1)
         else (year d, w))"

subsection \<open>The buckets of a history query\<close>

text \<open>The bucket keys of the rows that pass the date filter.\<close>

definition buckets ::
  "(string \<Rightarrow> string \<Rightarrow> string option) \<Rightarrow> string \<Rightarrow> string \<Rightarrow> string \<Rightarrow> database \<Rightarrow> string option set" where
  "buckets strftime period fromDate toDate db =
     set (map (period_of strftime period) (filter (date_filter fromDate toDate) db))"

text \<open>The \<^verbatim>\<open>Period\<close> a row of the result holds for a bucket key: a NULL key leaves it empty.\<close>

definition period_text :: "string option \<Rightarrow> string" where
  "period_text k = (case k of None \<Rightarrow> [] | Some p \<Rightarrow> p)"

subsection \<open>What the aggregation computes\<close>

text \<open>
  The aggregate the specification describes for a sequence of (amount, gst) pairs: the two
  float sums, taken in sequence order from 0, the number of pairs whose amount equals each
  price point, and the number of pairs.
\<close>

definition slab_count :: "float64 \<Rightarrow> float64 list \<Rightarrow> go_int" where
  "slab_count price amounts = of_nat (length (filter (\<lambda>a. feq a price) amounts))"

definition slabs_of :: "float64 list \<Rightarrow> SlabCounts" where
  "slabs_of amounts = \<lparr> Count125 = slab_count (Fin 125) amounts,
                        Count75 = slab_count (Fin 75) amounts,
                        Count0 = slab_count (Fin 0) amounts \<rparr>"

definition aggregate :: "(float64 \<times> float64) list \<Rightarrow> float64 \<times> float64 \<times> SlabCounts \<times> go_int" where
  "aggregate ps = (foldl fadd (Fin 0) (map fst ps), foldl fadd (Fin 0) (map snd ps),
                   slabs_of (map fst ps), of_nat (length ps))"

text \<open>The header row names every required column, once each header is trimmed.\<close>

definition has_required :: "string list \<Rightarrow> bool" where
  "has_required headers = (set required_columns \<subseteq> set (map TrimSpace headers))"

text \<open>The first required column, in the order of the check, that the header row lacks.\<close>

definition first_absent :: "string list \<Rightarrow> string" where
  "first_absent headers = hd (filter (\<lambda>req. req \<notin> set (map TrimSpace headers)) required_columns)"

text \<open>The amount and the GST of a record, as the row loop reads them.\<close>

definition amounts_of :: "(string \<Rightarrow> parse_outcome) \<Rightarrow> (string \<rightharpoonup> nat) \<Rightarrow> string list \<Rightarrow> float64 \<times> float64" where
  "amounts_of ParseFloat hm rec =
     (returned_float (ParseFloat (rec ! lookup hm ''TOTAL_AMOUNT_CHARGED'')),
      returned_float (ParseFloat (rec ! lookup hm ''GST_AMOUNT'')))"

text \<open>The \<^verbatim>\<open>Transaction\<close> the row loop builds from a record.\<close>

definition transaction_of :: "(string \<Rightarrow> parse_outcome) \<Rightarrow> string \<Rightarrow> (string \<rightharpoonup> nat) \<Rightarrow> string list \<Rightarrow> Transaction" where
  "transaction_of ParseFloat today hm rec =
     \<lparr> EnrolmentNoDate = rec ! lookup hm ''ENROLMENT_NO_DATE'',
       TotalAmountCharged = fst (amounts_of ParseFloat hm rec),
       GSTAmount = snd (amounts_of ParseFloat hm rec),
       OperatorID = rec ! lookup hm ''OPERATOR_ID'',
       ResidentName = rec ! lookup hm ''RESIDENT_NAME'',
       UploadDate = today \<rparr>"

text \<open>The summary of a file whose data records are \<open>rs\<close>.\<close>

definition summary_of :: "(string \<Rightarrow> parse_outcome) \<Rightarrow> (string \<rightharpoonup> nat) \<Rightarrow> string list list \<Rightarrow> UploadResult" where
  "summary_of ParseFloat hm rs =
     (case aggregate (map (amounts_of ParseFloat hm) rs) of
        (revenue, gst, s, n) \<Rightarrow> \<lparr> Filename = [], Rows = n, uRevenue = revenue, uGST = gst, Slabs = s \<rparr>)"

text \<open>The insert attempts of a file whose data records are \<open>rs\<close>, numbered from \<open>i\<close>.\<close>

definition inserts_of ::
  "(string \<Rightarrow> parse_outcome) \<Rightarrow> string \<Rightarrow> (nat \<Rightarrow> bool) \<Rightarrow> (string \<rightharpoonup> nat) \<Rightarrow> nat \<Rightarrow> string list list
     \<Rightarrow> (bool \<times> Transaction) list" where
  "inserts_of ParseFloat today write_fails hm i rs =
     map (\<lambda>(j, rec). (write_fails j, transaction_of ParseFloat today hm rec)) (enumerate i rs)"

text \<open>
  What a reader finds where a record of \<open>n\<close> fields is expected and decoding fails: the error
  of a broken line, or \<^verbatim>\<open>ErrFieldCount\<close> for a record of another length.
\<close>

fun decode_failure :: "nat \<Rightarrow> csv_event \<Rightarrow> decode_error option" where
  "decode_failure n (Broken e) = Some e"
| "decode_failure n (Fields fs) = (if length fs \<noteq> n then Some ErrFieldCount else None)"

subsection \<open>Example data\<close>

text \<open>
  A parser that agrees with \<^verbatim>\<open>strconv.ParseFloat\<close> on the texts of the examples: four
  numerals, and \<^verbatim>\<open>1e999\<close>, a well-formed numeral beyond the largest float64, for which
  \<^verbatim>\<open>ParseFloat\<close> returns +Inf with \<^verbatim>\<open>ErrRange\<close>. Every other text is malformed for it, as
  \<^verbatim>\<open>abc\<close> is.
\<close>

definition example_parser :: "string \<Rightarrow> parse_outcome" where
  "example_parser s =
     (if s = ''125'' then Parsed (Fin 125) else if s = ''75'' then Parsed (Fin 75)
      else if s = ''10'' then Parsed (Fin 10) else if s = ''5'' then Parsed (Fin 5)
      else if s = ''1e999'' then ErrRange False
      else ErrSyntax)"

definition example_rows :: "string list list" where
  "example_rows = [[''A'', ''125'', ''10'', ''OP1'', ''Alice''],
                   [''B'', ''75'', ''5'', ''OP2'', ''Bob''],
                   [''A'', ''125'', ''10'', ''OP1'', ''Alice'']]"

definition example_csv :: "csv_event list" where
  "example_csv = Fields required_columns # map Fields example_rows"

definition nextDate :: civil_date where
  "nextDate = \<lparr> year = 2024, month = 1, day = 11 \<rparr>"

definition txC :: Transaction where
  "txC = \<lparr> EnrolmentNoDate = ''C'', TotalAmountCharged = Fin 0, GSTAmount = Fin 0,
           OperatorID = ''OP1'', ResidentName = ''Carol'', UploadDate = ''2024-01-11'' \<rparr>"

definition new_years_eve :: civil_date where
  "new_years_eve = \<lparr> year = 2022, month = 12, day = 31 \<rparr>"

definition new_years_day :: civil_date where
  "new_years_day = \<lparr> year = 2023, month = 1, day = 1 \<rparr>"

text \<open>
  The examples consult \<open>sqlite_strftime\<close>, \<open>sum_single\<close> and \<open>getHistory\<close> only where these
  decide. The arguments for the rest are filled with constants, which the results do not
  depend on.
\<close>

definition unused_strftime :: "string \<Rightarrow> string \<Rightarrow> string option" where
  "unused_strftime fmt s = None"

definition unused_sum :: "float64 option list \<Rightarrow> float64 option" where
  "unused_sum vs = None"

definition unused_statement :: "string \<Rightarrow> database \<Rightarrow> HistoryRow list" where
  "unused_statement q db = []"

text \<open>Two rows uploaded on the Saturday and the Sunday of one week, across a new year.\<close>

definition new_year_rows :: database where
  "new_year_rows =
     [\<lparr> enrolment_no_date = ''A'', total_amount_charged = Some (Fin 125), gst_amount = Some (Fin 10),
        operator_id = ''OP1'', resident_name = ''Alice'', upload_date = ''2022-12-31'' \<rparr>,
      \<lparr> enrolment_no_date = ''B'', total_amount_charged = Some (Fin 75), gst_amount = Some (Fin 5),
        operator_id = ''OP2'', resident_name = ''Bob'', upload_date = ''2023-01-01'' \<rparr>]"

text \<open>A record whose amount is not a number.\<close>

definition malformed_row :: "string list" where
  "malformed_row = [''C'', ''abc'', ''5'', ''OP3'', ''Carol'']"

text \<open>A record whose amount is a numeral too large for a float64.\<close>

definition overflow_row :: "string list" where
  "overflow_row = [''D'', ''1e999'', ''5'', ''OP4'', ''Dan'']"

text \<open>A record under the key A whose amount is not a number and whose GST is too large.\<close>

definition overflow_gst_row :: "string list" where
  "overflow_gst_row = [''A'', ''abc'', ''1e999'', ''OP1'', ''Alice'']"

text \<open>A header row that pads one name, which trimming repairs, and writes another in lower case.\<close>

definition lowercase_header :: "string list" where
  "lowercase_header = [''ENROLMENT_NO_DATE'', '' TOTAL_AMOUNT_CHARGED '', ''gst_amount'',
                       ''OPERATOR_ID'', ''RESIDENT_NAME'']"

definition exampleDate :: civil_date where
  "exampleDate = \<lparr> year = 2024, month = 1, day = 10 \<rparr>"

definition txA :: Transaction where
  "txA = \<lparr> EnrolmentNoDate = ''A'', TotalAmountCharged = Fin 125, GSTAmount = Fin 10,
           OperatorID = ''OP1'', ResidentName = ''Alice'', UploadDate = ''2024-01-10'' \<rparr>"

definition txB :: Transaction where
  "txB = \<lparr> EnrolmentNoDate = ''B'', TotalAmountCharged = Fin 75, GSTAmount = Fin 5,
           OperatorID = ''OP2'', ResidentName = ''Bob'', UploadDate = ''2024-01-10'' \<rparr>"

section \<open>Properties of the store\<close>

lemma keys_append [simp]: "keys (db @ db') = keys db @ keys db'"
  by (simp add: keys_def)

lemma keys_row_of [simp]: "keys [row_of t] = [EnrolmentNoDate t]"
  by (simp add: keys_def row_of_def)

lemma keys_filter_subset: "set (keys (filter P db)) \<subseteq> set (keys db)"
  by (auto simp: keys_def)

lemma distinct_keys_filter: "distinct (keys db) \<Longrightarrow> distinct (keys (filter P db))"
  unfolding keys_def by (rule distinct_map_filter)

lemma saveTransaction_distinct:
  "distinct (keys db) \<Longrightarrow> distinct (keys (fst (saveTransaction exec_fails t db)))"
  by (simp add: saveTransaction_def)

lemma handleReset_distinct:
  "distinct (keys db) \<Longrightarrow> distinct (keys (fst (handleReset http_method query_fails exec_fails db)))"
  by (simp add: handleReset_def distinct_keys_filter split: option.splits)

lemma reachable_distinct: "reachable db \<Longrightarrow> distinct (keys db)"
proof (induction rule: reachable.induct)
  case reach_init
  show ?case by (simp add: initDB_def keys_def)
next
  case (reach_save db t now exec_fails)
  then show ?case by (simp add: saveTransaction_distinct)
next
  case (reach_reset db http_method query_fails exec_fails)
  then show ?case by (simp add: handleReset_distinct)
qed

lemma save_all_distinct: "distinct (keys db) \<Longrightarrow> distinct (keys (save_all ops db))"
proof (induction ops arbitrary: db)
  case Nil
  then show ?case by simp
next
  case (Cons op ops)
  obtain f t where op: "op = (f, t)" by (cases op)
  from Cons.prems have "distinct (keys (fst (saveTransaction f t db)))"
    by (rule saveTransaction_distinct)
  then show ?case unfolding op by (simp add: Cons.IH)
qed

lemma decimal_small: "n < 10 \<Longrightarrow> decimal n = [''0123456789'' ! n]"
  by (simp add: decimal.simps)

lemma Format_exampleDate: "Format_2006_01_02 exampleDate = ''2024-01-10''"
  by code_simp

lemma reachable_rowA: "reachable [row_of txA]"
proof -
  have "reachable (fst (saveTransaction False txA initDB))"
    by (rule reach_save [OF reach_init, of txA exampleDate])
       (simp add: txA_def Format_exampleDate)
  then show ?thesis by (simp add: saveTransaction_def initDB_def keys_def)
qed

text \<open>
  C2. In every store the program can reach, and after any further sequence of insert attempts,
  no \<^verbatim>\<open>enrolment_no_date\<close> occurs twice; an insert whose key is already present leaves the
  table as it was, and when the statement itself runs it returns no error.
\<close>

theorem enrolment_key_unique:
  assumes "reachable db"
  shows "distinct (keys db) \<and> distinct (keys (save_all ops db)) \<and>
         (EnrolmentNoDate t \<in> set (keys (save_all ops db)) \<longrightarrow>
            fst (saveTransaction exec_fails t (save_all ops db)) = save_all ops db \<and>
            snd (saveTransaction False t (save_all ops db)) = None)"
proof -
  from assms have d: "distinct (keys db)" by (rule reachable_distinct)
  then have "distinct (keys (save_all ops db))" by (rule save_all_distinct)
  with d show ?thesis by (simp add: saveTransaction_def)
qed

theorem enrolment_key_unique_witness:
  "reachable [row_of txA] \<and>
   distinct (keys (save_all [(False, txB), (False, txA), (True, txB)] [row_of txA])) \<and>
   save_all [(False, txB), (False, txA), (True, txB)] [row_of txA] = [row_of txA, row_of txB] \<and>
   EnrolmentNoDate txA \<in> set (keys [row_of txA, row_of txB]) \<and>
   saveTransaction False txA [row_of txA, row_of txB] = ([row_of txA, row_of txB], None)"
proof -
  have s: "save_all [(False, txB), (False, txA), (True, txB)] [row_of txA] = [row_of txA, row_of txB]"
    by (simp add: saveTransaction_def keys_def row_of_def txA_def txB_def)
  have k: "EnrolmentNoDate txA \<in> set (keys [row_of txA, row_of txB])"
    by (simp add: keys_def row_of_def)
  from enrolment_key_unique [OF reachable_rowA,
      of "[(False, txB), (False, txA), (True, txB)]" txA False] s k
  show ?thesis using reachable_rowA by (simp add: prod_eq_iff)
qed

text \<open>
  C9, as the code has it. \<^verbatim>\<open>saveTransaction\<close> returns an \<^verbatim>\<open>error\<close> only. When the statement
  runs, the error is nil whether the key was absent (the row is appended) or present (the table
  is unchanged): the caller is never told which of the two happened.
\<close>

theorem saveTransaction_returns_nil:
  "snd (saveTransaction False t db) = None \<and>
   (EnrolmentNoDate t \<in> set (keys db) \<longrightarrow> fst (saveTransaction False t db) = db) \<and>
   (EnrolmentNoDate t \<notin> set (keys db) \<longrightarrow> fst (saveTransaction False t db) = db @ [row_of t])"
  by (simp add: saveTransaction_def)

theorem saveTransaction_returns_nil_witness:
  "EnrolmentNoDate txA \<notin> set (keys initDB) \<and>
   saveTransaction False txA initDB = ([row_of txA], None) \<and>
   EnrolmentNoDate txA \<in> set (keys [row_of txA]) \<and>
   saveTransaction False txA [row_of txA] = ([row_of txA], None)"
proof -
  have a: "EnrolmentNoDate txA \<notin> set (keys initDB)"
    by (simp add: initDB_def keys_def)
  have b: "EnrolmentNoDate txA \<in> set (keys [row_of txA])"
    by (simp add: keys_def row_of_def)
  from saveTransaction_returns_nil [of txA initDB] saveTransaction_returns_nil [of txA "[row_of txA]"] a b
  show ?thesis by (simp add: prod_eq_iff initDB_def)
qed

text \<open>
  C9, as the claim has it: the value returned would tell an insert that added a row from one
  that did not. It does not: the insert of A into the empty table adds a row, the insert of A
  into the table that holds A adds none, and both return the same value.
\<close>

theorem saveTransaction_no_inserted_flag:
  "fst (saveTransaction False txA initDB) \<noteq> initDB \<and>
   fst (saveTransaction False txA [row_of txA]) = [row_of txA] \<and>
   snd (saveTransaction False txA initDB) = snd (saveTransaction False txA [row_of txA])"
  by (simp add: saveTransaction_def initDB_def keys_def row_of_def)


subsection \<open>The reader\<close>

lemma Read_header:
  "Read (NewReader (Fields h # rest)) = (Record h, \<lparr>pending = rest, FieldsPerRecord = int (length h)\<rparr>)"
  by (simp add: Read_def NewReader_def)

lemma Read_end: "Read \<lparr>pending = [], FieldsPerRecord = n\<rparr> = (EOF, \<lparr>pending = [], FieldsPerRecord = n\<rparr>)"
  by (simp add: Read_def)

lemma Read_Broken:
  "Read \<lparr>pending = Broken e # rest, FieldsPerRecord = n\<rparr> = (ReadError e, \<lparr>pending = rest, FieldsPerRecord = n\<rparr>)"
  by (simp add: Read_def)

lemma Read_Fields_same:
  "0 < length fs \<Longrightarrow> Read \<lparr>pending = Fields fs # rest, FieldsPerRecord = int (length fs)\<rparr>
     = (Record fs, \<lparr>pending = rest, FieldsPerRecord = int (length fs)\<rparr>)"
  by (simp add: Read_def)

lemma Read_Fields_other:
  "0 < n \<Longrightarrow> length fs \<noteq> n \<Longrightarrow> Read \<lparr>pending = Fields fs # rest, FieldsPerRecord = int n\<rparr>
     = (ReadError ErrFieldCount, \<lparr>pending = rest, FieldsPerRecord = int n\<rparr>)"
  by (simp add: Read_def)

subsection \<open>The header map\<close>

lemma fold_header_dom:
  "dom (fold (\<lambda>(i, h) hm. hm(TrimSpace h \<mapsto> i)) (enumerate n hs) m) = dom m \<union> TrimSpace ` set hs"
  by (induction hs arbitrary: n m) auto

lemma header_map_dom: "dom (header_map hs) = set (map TrimSpace hs)"
  by (simp add: header_map_def fold_header_dom)

lemma fold_header_bound:
  "fold (\<lambda>(i, h) hm. hm(TrimSpace h \<mapsto> i)) (enumerate n hs) m k = Some i
    \<Longrightarrow> m k = Some i \<or> (n \<le> i \<and> i < n + length hs)"
proof (induction hs arbitrary: n m)
  case Nil
  then show ?case by simp
next
  case (Cons h hs)
  from Cons.prems have "fold (\<lambda>(i, h) hm. hm(TrimSpace h \<mapsto> i)) (enumerate (Suc n) hs) (m(TrimSpace h \<mapsto> n)) k = Some i"
    by (simp del: fun_upd_apply)
  from Cons.IH [OF this] show ?case
    by (auto split: if_splits)
qed

lemma header_map_bound: "header_map hs k = Some i \<Longrightarrow> i < length hs"
  using fold_header_bound [of 0 hs Map.empty k i] by (simp add: header_map_def)

lemma lookup_bound: "k \<in> set (map TrimSpace hs) \<Longrightarrow> lookup (header_map hs) k < length hs"
proof -
  assume "k \<in> set (map TrimSpace hs)"
  then have "k \<in> dom (header_map hs)" by (simp only: header_map_dom)
  then obtain i where "header_map hs k = Some i" by auto
  then show ?thesis by (simp add: lookup_def header_map_bound)
qed

lemma first_missing_filter:
  "first_missing hm reqs = (case filter (\<lambda>req. hm req = None) reqs of [] \<Rightarrow> None | r # _ \<Rightarrow> Some r)"
  by (induction reqs) auto

lemma header_absent: "(header_map hs req = None) = (req \<notin> set (map TrimSpace hs))"
proof -
  have "(header_map hs req = None) = (req \<notin> dom (header_map hs))" by (simp add: domIff)
  then show ?thesis by (simp only: header_map_dom)
qed

lemma first_missing_has_required:
  "has_required hs \<Longrightarrow> first_missing (header_map hs) required_columns = None"
proof -
  assume "has_required hs"
  then have "filter (\<lambda>req. req \<notin> set (map TrimSpace hs)) required_columns = []"
    by (auto simp: has_required_def filter_empty_conv)
  then show ?thesis by (simp add: first_missing_filter header_absent)
qed

lemma first_missing_absent:
  "\<not> has_required hs \<Longrightarrow> first_missing (header_map hs) required_columns = Some (first_absent hs)"
proof -
  assume "\<not> has_required hs"
  then have "filter (\<lambda>req. req \<notin> set (map TrimSpace hs)) required_columns \<noteq> []"
    by (auto simp: has_required_def filter_empty_conv)
  then show ?thesis
    by (simp add: first_missing_filter header_absent first_absent_def split: list.splits)
qed

lemma first_absent_props:
  assumes "\<not> has_required hs"
  shows "first_absent hs \<in> set required_columns" "first_absent hs \<notin> set (map TrimSpace hs)"
proof -
  let ?l = "filter (\<lambda>req. req \<notin> set (map TrimSpace hs)) required_columns"
  from assms have "?l \<noteq> []" by (auto simp: has_required_def filter_empty_conv)
  then have "hd ?l \<in> set ?l" by (rule hd_in_set)
  then show "first_absent hs \<in> set required_columns" "first_absent hs \<notin> set (map TrimSpace hs)"
    unfolding first_absent_def by auto
qed

lemma has_required_length: "has_required hs \<Longrightarrow> 0 < length hs"
  by (auto simp: has_required_def required_columns_def)

subsection \<open>One record\<close>

lemma process_record_good:
  assumes "has_required hs" and "length rec = length hs"
  shows "process_record pf today f (header_map hs) rec db res =
     Some (fst (saveTransaction f (transaction_of pf today (header_map hs) rec) db),
           count_row (amounts_of pf (header_map hs) rec) res)"
proof -
  have b: "\<And>k. k \<in> set required_columns \<Longrightarrow> index rec (lookup (header_map hs) k) = Some (rec ! lookup (header_map hs) k)"
    using assms lookup_bound [of _ hs] by (auto simp: index_def has_required_def)
  show ?thesis
    by (simp add: process_record_def b required_columns_def transaction_of_def amounts_of_def Let_def)
qed

lemma process_record_result:
  "map_option snd (process_record pf today f hm rec db res) = map_option snd (process_record pf today f' hm rec db' res)"
  by (simp add: process_record_def Let_def split: option.splits)

lemma process_record_None:
  "(process_record pf today f hm rec db res = None) = (process_record pf today f' hm rec db' res = None)"
  using process_record_result [of pf today f hm rec db res f' db'] by (metis map_option_is_None)


subsection \<open>The row loop\<close>

lemma rows_loop_end:
  "rows_loop pf today fails hm \<lparr>pending = [], FieldsPerRecord = n\<rparr> i db res = (db, Inr res)"
  by (simp add: rows_loop.simps Read_end)

lemma rows_loop_Broken:
  "rows_loop pf today fails hm \<lparr>pending = Broken e # rest, FieldsPerRecord = n\<rparr> i db res
     = (db, Inl (DecodeError e))"
  by (simp add: rows_loop.simps Read_Broken)

lemma rows_loop_other:
  "0 < n \<Longrightarrow> length fs \<noteq> n \<Longrightarrow>
   rows_loop pf today fails hm \<lparr>pending = Fields fs # rest, FieldsPerRecord = int n\<rparr> i db res
     = (db, Inl (DecodeError ErrFieldCount))"
  by (simp add: rows_loop.simps Read_Fields_other)

lemma rows_loop_step:
  assumes "has_required hs" and "length rec = length hs"
  shows "rows_loop pf today fails (header_map hs) \<lparr>pending = Fields rec # rest, FieldsPerRecord = int (length hs)\<rparr> i db res
     = rows_loop pf today fails (header_map hs) \<lparr>pending = rest, FieldsPerRecord = int (length hs)\<rparr> (Suc i)
         (fst (saveTransaction (fails i) (transaction_of pf today (header_map hs) rec) db))
         (count_row (amounts_of pf (header_map hs) rec) res)"
proof -
  from assms have "0 < length rec" using has_required_length [of hs] by simp
  then have "Read \<lparr>pending = Fields rec # rest, FieldsPerRecord = int (length hs)\<rparr>
      = (Record rec, \<lparr>pending = rest, FieldsPerRecord = int (length hs)\<rparr>)"
    using Read_Fields_same [of rec rest] assms(2) by simp
  then show ?thesis
    by (subst rows_loop.simps) (simp add: process_record_good [OF assms])
qed

lemma rows_loop_rows:
  assumes "has_required hs" and "\<forall>rec \<in> set rs. length rec = length hs"
  shows "rows_loop pf today fails (header_map hs) \<lparr>pending = map Fields rs @ rest, FieldsPerRecord = int (length hs)\<rparr> i db res
     = rows_loop pf today fails (header_map hs) \<lparr>pending = rest, FieldsPerRecord = int (length hs)\<rparr> (i + length rs)
         (save_all (inserts_of pf today fails (header_map hs) i rs) db)
         (fold count_row (map (amounts_of pf (header_map hs)) rs) res)"
  using assms(2)
proof (induction rs arbitrary: i db res)
  case Nil
  show ?case by (simp add: inserts_of_def)
next
  case (Cons rec rs)
  then have len: "length rec = length hs" and rest: "\<forall>rec \<in> set rs. length rec = length hs"
    by simp_all
  show ?case
    using Cons.IH [OF rest, of "Suc i"] rows_loop_step [OF assms(1) len]
    by (simp add: inserts_of_def)
qed

lemma rows_loop_result:
  "snd (rows_loop pf today fails hm rd i db res) = snd (rows_loop pf today fails' hm rd i' db' res)"
proof (induction pf today fails hm rd i db res arbitrary: i' db' rule: rows_loop.induct)
  case (1 pf today fails hm rd i db res)
  show ?case
  proof (cases "Read rd")
    case (Pair rr rd')
    show ?thesis
    proof (cases rr)
      case (Record rec)
      show ?thesis
      proof (cases "process_record pf today (fails i) hm rec db res")
        case None
        then have "process_record pf today (fails' i') hm rec db' res = None"
          using process_record_None by blast
        with None Pair Record show ?thesis
          by (simp add: rows_loop.simps [of pf today fails hm rd] rows_loop.simps [of pf today fails' hm rd])
      next
        case (Some a)
        obtain db1 res1 where a: "a = (db1, res1)" by (cases a)
        from Some a process_record_result [of pf today "fails i" hm rec db res "fails' i'" db']
        obtain db2 where s2: "process_record pf today (fails' i') hm rec db' res = Some (db2, res1)"
          by (cases "process_record pf today (fails' i') hm rec db' res") auto
        have "snd (rows_loop pf today fails hm rd' (Suc i) db1 res1) = snd (rows_loop pf today fails' hm rd' (Suc i') db2 res1)"
          using "1.IH" [OF Pair [symmetric] Record Some a [symmetric]] Some a by simp
        with Some a s2 Pair Record show ?thesis
          by (simp add: rows_loop.simps [of pf today fails hm rd] rows_loop.simps [of pf today fails' hm rd])
      qed
    next
      case (ReadError e)
      with Pair show ?thesis
        by (simp add: rows_loop.simps [of pf today fails hm rd] rows_loop.simps [of pf today fails' hm rd])
    next
      case EOF
      with Pair show ?thesis
        by (simp add: rows_loop.simps [of pf today fails hm rd] rows_loop.simps [of pf today fails' hm rd])
    qed
  qed
qed


subsection \<open>The aggregation\<close>

lemma count_slab_fields:
  "count_slab a s = s\<lparr> Count125 := Count125 s + (if feq a (Fin 125) then 1 else 0),
                       Count75 := Count75 s + (if feq a (Fin 75) then 1 else 0),
                       Count0 := Count0 s + (if feq a (Fin 0) then 1 else 0) \<rparr>"
  by (simp add: count_slab_def feq_def)

lemma slab_count_Cons:
  "slab_count p (a # as) = (if feq a p then 1 else 0) + slab_count p as"
  by (simp add: slab_count_def)

lemma fold_count_slab:
  "fold count_slab as s = s\<lparr> Count125 := Count125 s + slab_count (Fin 125) as,
                             Count75 := Count75 s + slab_count (Fin 75) as,
                             Count0 := Count0 s + slab_count (Fin 0) as \<rparr>"
proof (induction as arbitrary: s)
  case Nil
  show ?case by (simp add: slab_count_def)
next
  case (Cons a as)
  have "fold count_slab (a # as) s = fold count_slab as (count_slab a s)" by simp
  also have "\<dots> = (count_slab a s)\<lparr> Count125 := Count125 (count_slab a s) + slab_count (Fin 125) as,
      Count75 := Count75 (count_slab a s) + slab_count (Fin 75) as,
      Count0 := Count0 (count_slab a s) + slab_count (Fin 0) as \<rparr>"
    by (rule Cons.IH)
  also have "\<dots> = s\<lparr> Count125 := Count125 s + slab_count (Fin 125) (a # as),
      Count75 := Count75 s + slab_count (Fin 75) (a # as),
      Count0 := Count0 s + slab_count (Fin 0) (a # as) \<rparr>"
    by (simp add: slab_count_Cons count_slab_fields add.assoc)
  finally show ?case .
qed

lemma fold_count_slab_no_slabs: "fold count_slab as no_slabs = slabs_of as"
  by (simp add: fold_count_slab no_slabs_def slabs_of_def)

lemma scan_loop_fold:
  "scan_loop ps (r, g, s, n) =
     (foldl fadd r (map fst ps), foldl fadd g (map snd ps), fold count_slab (map fst ps) s,
      n + of_nat (length ps))"
  by (induction ps arbitrary: r g s n) (auto simp: add.assoc add.commute)

lemma scan_loop_aggregate: "scan_loop ps (Fin 0, Fin 0, no_slabs, 0) = aggregate ps"
  by (simp add: scan_loop_fold aggregate_def fold_count_slab_no_slabs)

lemma fold_count_row:
  "fold count_row ps res =
     res\<lparr> Rows := Rows res + of_nat (length ps),
          uRevenue := foldl fadd (uRevenue res) (map fst ps),
          uGST := foldl fadd (uGST res) (map snd ps),
          Slabs := fold count_slab (map fst ps) (Slabs res) \<rparr>"
proof (induction ps arbitrary: res)
  case Nil
  show ?case by simp
next
  case (Cons p ps)
  have "fold count_row (p # ps) res = fold count_row ps (count_row p res)" by simp
  also have "\<dots> = (count_row p res)\<lparr> Rows := Rows (count_row p res) + of_nat (length ps),
      uRevenue := foldl fadd (uRevenue (count_row p res)) (map fst ps),
      uGST := foldl fadd (uGST (count_row p res)) (map snd ps),
      Slabs := fold count_slab (map fst ps) (Slabs (count_row p res)) \<rparr>"
    by (rule Cons.IH)
  also have "\<dots> = res\<lparr> Rows := Rows res + of_nat (length (p # ps)),
      uRevenue := foldl fadd (uRevenue res) (map fst (p # ps)),
      uGST := foldl fadd (uGST res) (map snd (p # ps)),
      Slabs := fold count_slab (map fst (p # ps)) (Slabs res) \<rparr>"
    by (simp add: count_row_def add.assoc)
  finally show ?case .
qed

lemma fold_count_row_summary:
  "fold count_row (map (amounts_of pf hm) rs) empty_result = summary_of pf hm rs"
  by (simp add: fold_count_row summary_of_def aggregate_def empty_result_def fold_count_slab_no_slabs)

subsection \<open>Whole files\<close>

lemma processCSV_rows:
  assumes "has_required hs" and "\<forall>rec \<in> set rs. length rec = length hs"
  shows "processCSV pf now fails (Fields hs # map Fields rs @ rest) db =
     rows_loop pf (Format_2006_01_02 now) fails (header_map hs)
        \<lparr>pending = rest, FieldsPerRecord = int (length hs)\<rparr> (length rs)
        (save_all (inserts_of pf (Format_2006_01_02 now) fails (header_map hs) 0 rs) db)
        (summary_of pf (header_map hs) rs)"
  using rows_loop_rows [OF assms, of pf "Format_2006_01_02 now" fails rest 0 db empty_result]
  by (simp add: processCSV_def Read_header first_missing_has_required [OF assms(1)] fold_count_row_summary)

lemma processCSV_good:
  assumes "has_required hs" and "\<forall>rec \<in> set rs. length rec = length hs"
  shows "processCSV pf now fails (Fields hs # map Fields rs) db =
     (save_all (inserts_of pf (Format_2006_01_02 now) fails (header_map hs) 0 rs) db,
      Inr (summary_of pf (header_map hs) rs))"
  using processCSV_rows [OF assms, of pf now fails "[]" db] by (simp add: rows_loop_end)

lemma processCSV_result:
  "snd (processCSV pf now fails doc db) = snd (processCSV pf now fails' doc db')"
  using rows_loop_result [of pf _ fails _ _ 0 db empty_result fails' 0 db']
  by (simp add: processCSV_def Let_def split: prod.splits read_result.splits option.splits)

lemma save_all_failing:
  "\<forall>op \<in> set ops. fst op \<Longrightarrow> save_all ops db = db"
  by (induction ops arbitrary: db) (auto simp: saveTransaction_def)

lemma inserts_of_failing: "\<forall>op \<in> set (inserts_of pf today (\<lambda>_. True) hm i rs). fst op"
  by (auto simp: inserts_of_def)


subsection \<open>Integers that a float64 holds exactly\<close>

lemma bit_length_le: "n < 2 ^ k \<Longrightarrow> bit_length n \<le> int k"
proof (induction k arbitrary: n)
  case 0
  then show ?case by (simp add: bit_length.simps)
next
  case (Suc k)
  show ?case
  proof (cases "n \<le> 0")
    case True
    then show ?thesis by (simp add: bit_length.simps)
  next
    case False
    from Suc.prems have "n div 2 < 2 ^ k" by simp
    then have "bit_length (n div 2) \<le> int k" by (rule Suc.IH)
    with False show ?thesis by (simp add: bit_length.simps [of n])
  qed
qed

lemma bit_length_one: "bit_length 1 = 1"
  by (simp add: bit_length.simps [of 1] bit_length.simps [of 0])

lemma ilog2_int_le:
  assumes "n < 2 ^ 53"
  shows "ilog2 (of_int n) \<le> 52"
proof -
  from assms have "bit_length n \<le> 53" using bit_length_le [of n 53] by simp
  then show ?thesis by (simp add: ilog2_def bit_length_one Let_def)
qed

lemma round_half_even_int: "round_half_even (of_int z) = z"
  by (simp add: round_half_even_def)

lemma round64_int:
  assumes "\<bar>n\<bar> < 2 ^ 53"
  shows "round64 (of_int n) = Fin (of_int n)"
proof (cases "n = 0")
  case True
  then show ?thesis by (simp add: round64_def)
next
  case False
  define e where "e = max (ilog2 \<bar>of_int n\<bar>) (- 1022)"
  define m where "m = nat (52 - e)"
  have "ilog2 \<bar>of_int n :: rat\<bar> \<le> 52"
    using ilog2_int_le [of "\<bar>n\<bar>"] assms by simp
  then have e: "e \<le> 52" by (simp add: e_def)
  then have u: "pow2 (e - 52) = 1 / 2 ^ m"
    by (cases "e = 52") (simp_all add: pow2_def m_def)
  have "(of_int n :: rat) / pow2 (e - 52) = of_int (n * 2 ^ m)" by (simp add: u)
  then have r: "round_half_even (of_int n / pow2 (e - 52)) = n * 2 ^ m"
    by (simp only: round_half_even_int)
  have scaled: "(of_int (n * 2 ^ m) :: rat) * pow2 (e - 52) = of_int n" by (simp add: u)
  have "\<bar>of_int n :: rat\<bar> < 2 ^ 53"
  proof -
    from assms have "(of_int \<bar>n\<bar> :: rat) < of_int (2 ^ 53)" by (simp only: of_int_less_iff)
    then show ?thesis by simp
  qed
  also have "\<dots> \<le> pow2 1024" by (simp add: pow2_def)
  finally have small: "\<not> pow2 1024 \<le> \<bar>of_int n :: rat\<bar>" by simp
  from False show ?thesis
    by (simp add: round64_def Let_def e_def [symmetric] r scaled small del: of_int_mult of_int_power)
qed

lemma round64_example:
  "round64 125 = Fin 125" "round64 200 = Fin 200" "round64 325 = Fin 325"
  "round64 10 = Fin 10" "round64 15 = Fin 15" "round64 25 = Fin 25" "round64 5 = Fin 5"
  using round64_int [of 125] round64_int [of 200] round64_int [of 325] round64_int [of 10]
    round64_int [of 15] round64_int [of 25] round64_int [of 5]
  by simp_all


subsection \<open>The example file\<close>

lemma TrimSpace_required: "map TrimSpace required_columns = required_columns"
  by code_simp

lemma has_required_example: "has_required required_columns"
  by (simp add: has_required_def TrimSpace_required)

lemma example_rows_length: "\<forall>rec \<in> set example_rows. length rec = length required_columns"
  by (simp add: example_rows_def required_columns_def)

lemma header_map_example:
  "header_map required_columns =
     [''ENROLMENT_NO_DATE'' \<mapsto> 0, ''TOTAL_AMOUNT_CHARGED'' \<mapsto> 1, ''GST_AMOUNT'' \<mapsto> 2,
      ''OPERATOR_ID'' \<mapsto> 3, ''RESIDENT_NAME'' \<mapsto> 4]"
proof -
  have t: "TrimSpace ''ENROLMENT_NO_DATE'' = ''ENROLMENT_NO_DATE''"
    "TrimSpace ''TOTAL_AMOUNT_CHARGED'' = ''TOTAL_AMOUNT_CHARGED''"
    "TrimSpace ''GST_AMOUNT'' = ''GST_AMOUNT''"
    "TrimSpace ''OPERATOR_ID'' = ''OPERATOR_ID''"
    "TrimSpace ''RESIDENT_NAME'' = ''RESIDENT_NAME''"
    using TrimSpace_required by (simp_all add: required_columns_def)
  show ?thesis
    by (simp add: header_map_def required_columns_def t eval_nat_numeral del: fun_upd_apply)
qed

lemma lookup_example:
  "lookup (header_map required_columns) ''ENROLMENT_NO_DATE'' = 0"
  "lookup (header_map required_columns) ''TOTAL_AMOUNT_CHARGED'' = 1"
  "lookup (header_map required_columns) ''GST_AMOUNT'' = 2"
  "lookup (header_map required_columns) ''OPERATOR_ID'' = 3"
  "lookup (header_map required_columns) ''RESIDENT_NAME'' = 4"
  by (simp_all add: header_map_example lookup_def)

lemma aggregate_example:
  "aggregate [(Fin 125, Fin 10), (Fin 75, Fin 5), (Fin 125, Fin 10)] =
     (Fin 325, Fin 25, \<lparr>Count125 = 2, Count75 = 1, Count0 = 0\<rparr>, 3)"
  by (simp add: aggregate_def slabs_of_def slab_count_def feq_def round64_example)

lemma example_amounts:
  assumes "pf ''125'' = Parsed (Fin 125)" "pf ''75'' = Parsed (Fin 75)"
    "pf ''10'' = Parsed (Fin 10)" "pf ''5'' = Parsed (Fin 5)"
  shows "map (amounts_of pf (header_map required_columns)) example_rows =
     [(Fin 125, Fin 10), (Fin 75, Fin 5), (Fin 125, Fin 10)]"
  by (simp add: example_rows_def amounts_of_def lookup_example assms)

lemma example_inserts:
  assumes "pf ''125'' = Parsed (Fin 125)" "pf ''75'' = Parsed (Fin 75)"
    "pf ''10'' = Parsed (Fin 10)" "pf ''5'' = Parsed (Fin 5)"
  shows "inserts_of pf ''2024-01-10'' (\<lambda>_. False) (header_map required_columns) 0 example_rows =
     [(False, txA), (False, txB), (False, txA)]"
  by (simp add: inserts_of_def example_rows_def transaction_of_def amounts_of_def lookup_example assms
      txA_def txB_def)

lemma example_store:
  "save_all [(False, txA), (False, txB), (False, txA)] initDB = [row_of txA, row_of txB]"
  by (simp add: saveTransaction_def initDB_def keys_def row_of_def txA_def txB_def)

lemma example_store_any:
  assumes "pf ''125'' = Parsed (Fin 125)" "pf ''75'' = Parsed (Fin 75)"
    "pf ''10'' = Parsed (Fin 10)" "pf ''5'' = Parsed (Fin 5)"
  shows "save_all (inserts_of pf ''2024-01-10'' (\<lambda>_. False) (header_map required_columns) 0 example_rows) initDB
     = [row_of txA, row_of txB]"
  by (simp only: example_inserts [OF assms] example_store)

lemma example_parser_values:
  "example_parser ''125'' = Parsed (Fin 125)" "example_parser ''75'' = Parsed (Fin 75)"
  "example_parser ''10'' = Parsed (Fin 10)" "example_parser ''5'' = Parsed (Fin 5)"
  "example_parser ''abc'' = ErrSyntax"
  by (simp_all add: example_parser_def)

text \<open>
  C1. When the header row names the five required columns and every record decodes, the
  summary returned is that of all the records of the file, whatever the table held before and
  whatever each insert did: the table is the result of the insert attempts, the summary is a
  function of the records alone. For the file with rows (A,125,10,OP1,Alice),
  (B,75,5,OP2,Bob), (A,125,10,OP1,Alice) ingested on 2024-01-10 into the empty table, with a
  parser that reads the four numerals as Go does, the summary is Rows=3, Revenue=325, GST=25,
  Slabs 125:2, 75:1, 0:0, and the table ends with the two rows A and B.
\<close>

theorem ingest_counts_every_row:
  assumes "has_required hs" and "\<forall>rec \<in> set rs. length rec = length hs"
  shows "processCSV pf now fails (Fields hs # map Fields rs) db =
           (save_all (inserts_of pf (Format_2006_01_02 now) fails (header_map hs) 0 rs) db,
            Inr (summary_of pf (header_map hs) rs)) \<and>
         Rows (summary_of pf (header_map hs) rs) = of_nat (length rs) \<and>
         (pf ''125'' = Parsed (Fin 125) \<and> pf ''75'' = Parsed (Fin 75) \<and>
          pf ''10'' = Parsed (Fin 10) \<and> pf ''5'' = Parsed (Fin 5) \<longrightarrow>
            processCSV pf exampleDate (\<lambda>_. False) example_csv initDB =
              ([row_of txA, row_of txB],
               Inr \<lparr> Filename = [], Rows = 3, uRevenue = Fin 325, uGST = Fin 25,
                     Slabs = \<lparr>Count125 = 2, Count75 = 1, Count0 = 0\<rparr> \<rparr>))"
proof (intro conjI impI)
  show "processCSV pf now fails (Fields hs # map Fields rs) db =
           (save_all (inserts_of pf (Format_2006_01_02 now) fails (header_map hs) 0 rs) db,
            Inr (summary_of pf (header_map hs) rs))"
    using assms by (rule processCSV_good)
next
  show "Rows (summary_of pf (header_map hs) rs) = of_nat (length rs)"
    by (simp add: summary_of_def aggregate_def)
next
  assume pf: "pf ''125'' = Parsed (Fin 125) \<and> pf ''75'' = Parsed (Fin 75) \<and>
          pf ''10'' = Parsed (Fin 10) \<and> pf ''5'' = Parsed (Fin 5)"
  have "processCSV pf exampleDate (\<lambda>_. False) example_csv initDB =
      (save_all (inserts_of pf (Format_2006_01_02 exampleDate) (\<lambda>_. False) (header_map required_columns) 0 example_rows) initDB,
       Inr (summary_of pf (header_map required_columns) example_rows))"
    unfolding example_csv_def using has_required_example example_rows_length by (rule processCSV_good)
  moreover have "summary_of pf (header_map required_columns) example_rows =
      \<lparr> Filename = [], Rows = 3, uRevenue = Fin 325, uGST = Fin 25,
        Slabs = \<lparr>Count125 = 2, Count75 = 1, Count0 = 0\<rparr> \<rparr>"
    using pf by (simp add: summary_of_def example_amounts aggregate_example)
  ultimately show "processCSV pf exampleDate (\<lambda>_. False) example_csv initDB =
              ([row_of txA, row_of txB],
               Inr \<lparr> Filename = [], Rows = 3, uRevenue = Fin 325, uGST = Fin 25,
                     Slabs = \<lparr>Count125 = 2, Count75 = 1, Count0 = 0\<rparr> \<rparr>)"
    using pf by (simp add: Format_exampleDate example_store_any)
qed

theorem ingest_counts_every_row_witness:
  "has_required required_columns \<and>
   processCSV example_parser exampleDate (\<lambda>_. False) example_csv initDB =
     ([row_of txA, row_of txB],
      Inr \<lparr> Filename = [], Rows = 3, uRevenue = Fin 325, uGST = Fin 25,
            Slabs = \<lparr>Count125 = 2, Count75 = 1, Count0 = 0\<rparr> \<rparr>) \<and>
   snd (processCSV example_parser exampleDate (\<lambda>_. True) example_csv [row_of txB]) =
      Inr \<lparr> Filename = [], Rows = 3, uRevenue = Fin 325, uGST = Fin 25,
            Slabs = \<lparr>Count125 = 2, Count75 = 1, Count0 = 0\<rparr> \<rparr>"
proof -
  note inst = ingest_counts_every_row [OF has_required_example example_rows_length, of example_parser]
  have s: "summary_of example_parser (header_map required_columns) example_rows =
      \<lparr> Filename = [], Rows = 3, uRevenue = Fin 325, uGST = Fin 25,
        Slabs = \<lparr>Count125 = 2, Count75 = 1, Count0 = 0\<rparr> \<rparr>"
    by (simp add: summary_of_def example_amounts example_parser_values aggregate_example)
  from inst [of exampleDate "\<lambda>_. True" "[row_of txB]"] s
  have "snd (processCSV example_parser exampleDate (\<lambda>_. True) example_csv [row_of txB]) =
      Inr \<lparr> Filename = [], Rows = 3, uRevenue = Fin 325, uGST = Fin 25,
            Slabs = \<lparr>Count125 = 2, Count75 = 1, Count0 = 0\<rparr> \<rparr>"
    by (simp add: example_csv_def)
  with inst [of exampleDate "\<lambda>_. False" initDB] has_required_example
  show ?thesis by (simp add: example_parser_values)
qed


text \<open>
  C3. When the header row, each header trimmed and compared byte for byte, lacks one of the
  five required columns, ingestion returns the missing-column error that names the first
  required column absent, and the table is the one it was given: no row is written.
\<close>

theorem missing_column_rejects_file:
  assumes "\<not> has_required hs"
  shows "processCSV pf now fails (Fields hs # rest) db = (db, Inl (MissingColumn (first_absent hs))) \<and>
         first_absent hs \<in> set required_columns \<and>
         first_absent hs \<notin> set (map TrimSpace hs)"
  using first_absent_props [OF assms]
  by (simp add: processCSV_def Read_header first_missing_absent [OF assms])

theorem missing_column_rejects_file_witness:
  "\<not> has_required lowercase_header \<and>
   processCSV example_parser exampleDate (\<lambda>_. False)
     (Fields lowercase_header # map Fields example_rows) [row_of txB]
     = ([row_of txB], Inl (MissingColumn ''GST_AMOUNT''))"
proof -
  have t: "map TrimSpace lowercase_header =
      [''ENROLMENT_NO_DATE'', ''TOTAL_AMOUNT_CHARGED'', ''gst_amount'', ''OPERATOR_ID'', ''RESIDENT_NAME'']"
    by code_simp
  have n: "\<not> has_required lowercase_header"
    by (simp add: has_required_def t required_columns_def)
  have f: "first_absent lowercase_header = ''GST_AMOUNT''"
    by (simp add: first_absent_def t required_columns_def)
  from missing_column_rejects_file [OF n, of example_parser exampleDate "\<lambda>_. False" "map Fields example_rows" "[row_of txB]"] n f
  show ?thesis by simp
qed

text \<open>
  C8. When the header row is complete, \<open>N\<close> records decode and the next thing the reader meets
  is a failure (a broken line, a stream error, or a record of another length), ingestion
  returns that decode error and no summary, and the table holds what the insert attempts of
  the \<open>N\<close> records left in it: exactly the table that ingesting the first \<open>N\<close> records alone
  gives. What follows the failure in the file is not read.
\<close>

theorem decode_error_keeps_rows:
  assumes "has_required hs" and "\<forall>rec \<in> set rs. length rec = length hs"
    and "decode_failure (length hs) bad = Some e"
  shows "processCSV pf now fails (Fields hs # map Fields rs @ bad # rest) db =
           (save_all (inserts_of pf (Format_2006_01_02 now) fails (header_map hs) 0 rs) db,
            Inl (DecodeError e)) \<and>
         fst (processCSV pf now fails (Fields hs # map Fields rs @ bad # rest) db) =
           fst (processCSV pf now fails (Fields hs # map Fields rs) db)"
proof -
  have "rows_loop pf (Format_2006_01_02 now) fails (header_map hs)
          \<lparr>pending = bad # rest, FieldsPerRecord = int (length hs)\<rparr> i db' res = (db', Inl (DecodeError e))"
    for i db' res
  proof (cases bad)
    case (Fields fs)
    with assms(3) have "length fs \<noteq> length hs" and "e = ErrFieldCount"
      by (simp_all split: if_splits)
    with Fields show ?thesis
      using rows_loop_other [of "length hs" fs] has_required_length [OF assms(1)] by simp
  next
    case (Broken e')
    with assms(3) show ?thesis by (simp add: rows_loop_Broken)
  qed
  then show ?thesis
    by (simp add: processCSV_rows [OF assms(1,2)] processCSV_good [OF assms(1,2)])
qed

theorem decode_error_keeps_rows_witness:
  "processCSV example_parser exampleDate (\<lambda>_. False)
     (example_csv @ [Fields [''C'', ''75''], Fields [''D'', ''75'', ''5'', ''OP2'', ''Dan'']]) initDB
     = ([row_of txA, row_of txB], Inl (DecodeError ErrFieldCount)) \<and>
   processCSV example_parser exampleDate (\<lambda>_. False)
     (example_csv @ [Broken ErrStream]) initDB
     = ([row_of txA, row_of txB], Inl (DecodeError ErrStream))"
proof -
  have a: "decode_failure (length required_columns) (Fields [''C'', ''75'']) = Some ErrFieldCount"
    by (simp add: required_columns_def)
  have b: "decode_failure (length required_columns) (Broken ErrStream) = Some ErrStream"
    by simp
  note st = example_store_any [OF example_parser_values(1-4)]
  from decode_error_keeps_rows [OF has_required_example example_rows_length a,
      of example_parser exampleDate "\<lambda>_. False" "[Fields [''D'', ''75'', ''5'', ''OP2'', ''Dan'']]" initDB]
    decode_error_keeps_rows [OF has_required_example example_rows_length b,
      of example_parser exampleDate "\<lambda>_. False" "[]" initDB]
  show ?thesis
    by (simp add: example_csv_def Format_exampleDate st)
qed

text \<open>
  C10. What ingestion returns does not depend on the table or on the outcome of any write: for
  every file, the result (the decode or header error, or the summary) is the same under every
  schedule of failing writes and from every table. When every write fails, a file that decodes
  still yields its full summary and no error, while the table stays as it was.
\<close>

theorem write_errors_are_dropped:
  "snd (processCSV pf now fails doc db) = snd (processCSV pf now (\<lambda>_. False) doc db') \<and>
   (has_required hs \<and> (\<forall>rec \<in> set rs. length rec = length hs) \<longrightarrow>
      processCSV pf now (\<lambda>_. True) (Fields hs # map Fields rs) db =
        (db, Inr (summary_of pf (header_map hs) rs)))"
proof (intro conjI impI)
  show "snd (processCSV pf now fails doc db) = snd (processCSV pf now (\<lambda>_. False) doc db')"
    by (rule processCSV_result)
next
  assume "has_required hs \<and> (\<forall>rec \<in> set rs. length rec = length hs)"
  then have h: "has_required hs" and l: "\<forall>rec \<in> set rs. length rec = length hs" by simp_all
  show "processCSV pf now (\<lambda>_. True) (Fields hs # map Fields rs) db =
        (db, Inr (summary_of pf (header_map hs) rs))"
    by (simp add: processCSV_good [OF h l] save_all_failing [OF inserts_of_failing])
qed

theorem write_errors_are_dropped_witness:
  "processCSV example_parser exampleDate (\<lambda>_. True) example_csv initDB =
     (initDB, Inr \<lparr> Filename = [], Rows = 3, uRevenue = Fin 325, uGST = Fin 25,
                   Slabs = \<lparr>Count125 = 2, Count75 = 1, Count0 = 0\<rparr> \<rparr>) \<and>
   snd (processCSV example_parser exampleDate (\<lambda>i. i = 1) example_csv [row_of txA]) =
     snd (processCSV example_parser exampleDate (\<lambda>_. False) example_csv initDB)"
proof -
  have s: "summary_of example_parser (header_map required_columns) example_rows =
      \<lparr> Filename = [], Rows = 3, uRevenue = Fin 325, uGST = Fin 25,
        Slabs = \<lparr>Count125 = 2, Count75 = 1, Count0 = 0\<rparr> \<rparr>"
    by (simp add: summary_of_def example_amounts example_parser_values aggregate_example)
  from write_errors_are_dropped [of example_parser exampleDate "\<lambda>i. i = 1" example_csv "[row_of txA]" initDB
      required_columns example_rows]
    write_errors_are_dropped [of example_parser exampleDate "\<lambda>_. True" example_csv initDB initDB
      required_columns example_rows]
    has_required_example example_rows_length s
  show ?thesis by (simp add: example_csv_def)
qed


lemma round64_zero: "round64 0 = Fin 0"
  by (simp add: round64_def)

lemma feq_Fin: "feq a (Fin q) = (a = Fin q)"
  by (auto simp: feq_def)

text \<open>
  C4. For every sequence of (amount, gst) pairs, both loops of the source (the scan of
  \<^verbatim>\<open>getAnalyticsFiltered\<close> and the row loop of \<^verbatim>\<open>processCSV\<close>) compute the same aggregate:
  the float sum of the amounts and of the gst values, taken in order from 0, the number of
  pairs, and the three slab counts, each the number of pairs whose amount is that price. An
  amount of exactly 125 adds one to \<^verbatim>\<open>Count125\<close> and leaves the other two as they were,
  likewise 75 and 0; any other amount leaves all three as they were. Counts are Go integers
  and wrap.
\<close>

theorem slab_classification:
  "scan_loop ps (Fin 0, Fin 0, no_slabs, 0) = aggregate ps \<and>
   getAnalyticsFiltered False cond db =
     aggregate (map Scan_amounts (case cond of None \<Rightarrow> db | Some P \<Rightarrow> filter P db)) \<and>
   fold count_row ps empty_result =
     \<lparr> Filename = [], Rows = of_nat (length ps), uRevenue = foldl fadd (Fin 0) (map fst ps),
       uGST = foldl fadd (Fin 0) (map snd ps), Slabs = slabs_of (map fst ps) \<rparr> \<and>
   aggregate ps = (foldl fadd (Fin 0) (map fst ps), foldl fadd (Fin 0) (map snd ps),
      \<lparr> Count125 = of_nat (length (filter (\<lambda>p. fst p = Fin 125) ps)),
        Count75 = of_nat (length (filter (\<lambda>p. fst p = Fin 75) ps)),
        Count0 = of_nat (length (filter (\<lambda>p. fst p = Fin 0) ps)) \<rparr>,
      of_nat (length ps)) \<and>
   count_slab (Fin 125) s = s\<lparr>Count125 := Count125 s + 1\<rparr> \<and>
   count_slab (Fin 75) s = s\<lparr>Count75 := Count75 s + 1\<rparr> \<and>
   count_slab (Fin 0) s = s\<lparr>Count0 := Count0 s + 1\<rparr> \<and>
   (a \<noteq> Fin 125 \<and> a \<noteq> Fin 75 \<and> a \<noteq> Fin 0 \<longrightarrow> count_slab a s = s) \<and>
   (has_required hs \<and> (\<forall>rec \<in> set rs. length rec = length hs) \<longrightarrow>
      snd (processCSV pf now fails (Fields hs # map Fields rs) db) =
        Inr (fold count_row (map (amounts_of pf (header_map hs)) rs) empty_result))"
proof (intro conjI impI)
  show "scan_loop ps (Fin 0, Fin 0, no_slabs, 0) = aggregate ps"
    by (rule scan_loop_aggregate)
  show "getAnalyticsFiltered False cond db =
     aggregate (map Scan_amounts (case cond of None \<Rightarrow> db | Some P \<Rightarrow> filter P db))"
    by (simp add: getAnalyticsFiltered_def scan_loop_aggregate)
  show "fold count_row ps empty_result =
     \<lparr> Filename = [], Rows = of_nat (length ps), uRevenue = foldl fadd (Fin 0) (map fst ps),
       uGST = foldl fadd (Fin 0) (map snd ps), Slabs = slabs_of (map fst ps) \<rparr>"
    by (simp add: fold_count_row empty_result_def fold_count_slab_no_slabs)
  show "aggregate ps = (foldl fadd (Fin 0) (map fst ps), foldl fadd (Fin 0) (map snd ps),
      \<lparr> Count125 = of_nat (length (filter (\<lambda>p. fst p = Fin 125) ps)),
        Count75 = of_nat (length (filter (\<lambda>p. fst p = Fin 75) ps)),
        Count0 = of_nat (length (filter (\<lambda>p. fst p = Fin 0) ps)) \<rparr>,
      of_nat (length ps))"
    by (simp add: aggregate_def slabs_of_def slab_count_def feq_Fin filter_map comp_def)
  show "count_slab (Fin 125) s = s\<lparr>Count125 := Count125 s + 1\<rparr>"
    by (simp add: count_slab_def feq_def)
  show "count_slab (Fin 75) s = s\<lparr>Count75 := Count75 s + 1\<rparr>"
    by (simp add: count_slab_def feq_def)
  show "count_slab (Fin 0) s = s\<lparr>Count0 := Count0 s + 1\<rparr>"
    by (simp add: count_slab_def feq_def)
next
  assume "a \<noteq> Fin 125 \<and> a \<noteq> Fin 75 \<and> a \<noteq> Fin 0"
  then show "count_slab a s = s" by (simp add: count_slab_def feq_def)
next
  assume "has_required hs \<and> (\<forall>rec \<in> set rs. length rec = length hs)"
  then have h: "has_required hs" and l: "\<forall>rec \<in> set rs. length rec = length hs" by simp_all
  show "snd (processCSV pf now fails (Fields hs # map Fields rs) db) =
        Inr (fold count_row (map (amounts_of pf (header_map hs)) rs) empty_result)"
    by (simp add: processCSV_good [OF h l] fold_count_row_summary)
qed

theorem slab_classification_witness:
  "scan_loop [(Fin 125, Fin 10), (Fin 75, Fin 5), (Fin 125, Fin 10)] (Fin 0, Fin 0, no_slabs, 0) =
     (Fin 325, Fin 25, \<lparr>Count125 = 2, Count75 = 1, Count0 = 0\<rparr>, 3) \<and>
   count_slab (Fin 100) no_slabs = no_slabs \<and>
   count_slab PInf no_slabs = no_slabs \<and>
   snd (processCSV example_parser exampleDate (\<lambda>_. False) example_csv initDB) =
     Inr \<lparr> Filename = [], Rows = 3, uRevenue = Fin 325, uGST = Fin 25,
           Slabs = \<lparr>Count125 = 2, Count75 = 1, Count0 = 0\<rparr> \<rparr>"
proof -
  note inst = slab_classification [where ps = "[(Fin 125, Fin 10), (Fin 75, Fin 5), (Fin 125, Fin 10)]"
      and hs = required_columns and rs = example_rows and pf = example_parser and now = exampleDate
      and fails = "\<lambda>_. False" and db = initDB and cond = None and s = no_slabs]
  have c: "fold count_row (map (amounts_of example_parser (header_map required_columns)) example_rows) empty_result =
      \<lparr> Filename = [], Rows = 3, uRevenue = Fin 325, uGST = Fin 25,
        Slabs = \<lparr>Count125 = 2, Count75 = 1, Count0 = 0\<rparr> \<rparr>"
    by (simp only: fold_count_row_summary)
       (simp add: summary_of_def example_amounts example_parser_values aggregate_example)
  have f1: "scan_loop [(Fin 125, Fin 10), (Fin 75, Fin 5), (Fin 125, Fin 10)] (Fin 0, Fin 0, no_slabs, 0) =
      aggregate [(Fin 125, Fin 10), (Fin 75, Fin 5), (Fin 125, Fin 10)]"
    using inst [of PInf] by blast
  have f2: "Fin 100 \<noteq> Fin 125 \<and> Fin 100 \<noteq> Fin 75 \<and> Fin 100 \<noteq> Fin 0 \<longrightarrow>
      count_slab (Fin 100) no_slabs = no_slabs"
    using inst [of "Fin 100"] by blast
  have f3: "PInf \<noteq> Fin 125 \<and> PInf \<noteq> Fin 75 \<and> PInf \<noteq> Fin 0 \<longrightarrow> count_slab PInf no_slabs = no_slabs"
    using inst [of PInf] by blast
  have f4: "has_required required_columns \<and> (\<forall>rec \<in> set example_rows. length rec = length required_columns) \<longrightarrow>
      snd (processCSV example_parser exampleDate (\<lambda>_. False) (Fields required_columns # map Fields example_rows) initDB) =
        Inr (fold count_row (map (amounts_of example_parser (header_map required_columns)) example_rows) empty_result)"
    using inst [of PInf] by blast
  from f1 have g1: "scan_loop [(Fin 125, Fin 10), (Fin 75, Fin 5), (Fin 125, Fin 10)] (Fin 0, Fin 0, no_slabs, 0) =
      (Fin 325, Fin 25, \<lparr>Count125 = 2, Count75 = 1, Count0 = 0\<rparr>, 3)"
    by (simp only: aggregate_example)
  from f2 have g2: "count_slab (Fin 100) no_slabs = no_slabs" by simp
  from f3 have g3: "count_slab PInf no_slabs = no_slabs" by simp
  from f4 has_required_example example_rows_length
  have "snd (processCSV example_parser exampleDate (\<lambda>_. False) (Fields required_columns # map Fields example_rows) initDB) =
        Inr (fold count_row (map (amounts_of example_parser (header_map required_columns)) example_rows) empty_result)"
    by blast
  then have g4: "snd (processCSV example_parser exampleDate (\<lambda>_. False) example_csv initDB) =
     Inr \<lparr> Filename = [], Rows = 3, uRevenue = Fin 325, uGST = Fin 25,
           Slabs = \<lparr>Count125 = 2, Count75 = 1, Count0 = 0\<rparr> \<rparr>"
    by (simp only: c example_csv_def)
  from g1 g2 g3 g4 show ?thesis by blast
qed

subsection \<open>Numbers that do not parse\<close>

text \<open>
  C6, as the code has it. A record whose amount or GST text makes the parser fail is not
  rejected: the loop goes on to the next record, the insert is attempted and the summary
  counts the record. The value taken for the field is the one \<^verbatim>\<open>ParseFloat\<close> returns with
  its error: 0 for malformed text, an infinity for a well-formed numeral out of range. The
  insert is attempted with that value: when the write does not fail and the key is new, the
  row appended holds it in that column; when the write fails or the key is stored already,
  the table is unchanged. A malformed amount adds one to \<^verbatim>\<open>Count0\<close> and to no other slab; an
  amount out of range is in no slab.
\<close>

theorem malformed_number_is_zero:
  assumes "has_required hs" and "length rec = length hs"
  shows "rows_loop pf today fails (header_map hs)
           \<lparr>pending = Fields rec # rest, FieldsPerRecord = int (length hs)\<rparr> i db res =
         rows_loop pf today fails (header_map hs)
           \<lparr>pending = rest, FieldsPerRecord = int (length hs)\<rparr> (Suc i)
           (fst (saveTransaction (fails i) (transaction_of pf today (header_map hs) rec) db))
           (count_row (amounts_of pf (header_map hs) rec) res) \<and>
         Rows (count_row (amounts_of pf (header_map hs) rec) res) = Rows res + 1 \<and>
         (pf (rec ! lookup (header_map hs) ''TOTAL_AMOUNT_CHARGED'') = ErrSyntax \<longrightarrow>
            TotalAmountCharged (transaction_of pf today (header_map hs) rec) = Fin 0 \<and>
            total_amount_charged (row_of (transaction_of pf today (header_map hs) rec)) = Some (Fin 0) \<and>
            uRevenue (count_row (amounts_of pf (header_map hs) rec) res) = fadd (uRevenue res) (Fin 0) \<and>
            Slabs (count_row (amounts_of pf (header_map hs) rec) res) =
              (Slabs res)\<lparr>Count0 := Count0 (Slabs res) + 1\<rparr>) \<and>
         (pf (rec ! lookup (header_map hs) ''TOTAL_AMOUNT_CHARGED'') = ErrRange amt_negative \<longrightarrow>
            TotalAmountCharged (transaction_of pf today (header_map hs) rec) =
              (if amt_negative then NInf else PInf) \<and>
            total_amount_charged (row_of (transaction_of pf today (header_map hs) rec)) =
              Some (if amt_negative then NInf else PInf) \<and>
            uRevenue (count_row (amounts_of pf (header_map hs) rec) res) =
              fadd (uRevenue res) (if amt_negative then NInf else PInf) \<and>
            Slabs (count_row (amounts_of pf (header_map hs) rec) res) = Slabs res) \<and>
         (pf (rec ! lookup (header_map hs) ''GST_AMOUNT'') = ErrSyntax \<longrightarrow>
            GSTAmount (transaction_of pf today (header_map hs) rec) = Fin 0 \<and>
            gst_amount (row_of (transaction_of pf today (header_map hs) rec)) = Some (Fin 0) \<and>
            uGST (count_row (amounts_of pf (header_map hs) rec) res) = fadd (uGST res) (Fin 0)) \<and>
         (pf (rec ! lookup (header_map hs) ''GST_AMOUNT'') = ErrRange gst_negative \<longrightarrow>
            GSTAmount (transaction_of pf today (header_map hs) rec) =
              (if gst_negative then NInf else PInf) \<and>
            gst_amount (row_of (transaction_of pf today (header_map hs) rec)) =
              Some (if gst_negative then NInf else PInf) \<and>
            uGST (count_row (amounts_of pf (header_map hs) rec) res) =
              fadd (uGST res) (if gst_negative then NInf else PInf)) \<and>
         (\<not> fails i \<and> EnrolmentNoDate (transaction_of pf today (header_map hs) rec) \<notin> set (keys db) \<longrightarrow>
            fst (saveTransaction (fails i) (transaction_of pf today (header_map hs) rec) db) =
              db @ [row_of (transaction_of pf today (header_map hs) rec)]) \<and>
         (fails i \<or> EnrolmentNoDate (transaction_of pf today (header_map hs) rec) \<in> set (keys db) \<longrightarrow>
            fst (saveTransaction (fails i) (transaction_of pf today (header_map hs) rec) db) = db)"
proof -
  have step: "rows_loop pf today fails (header_map hs)
           \<lparr>pending = Fields rec # rest, FieldsPerRecord = int (length hs)\<rparr> i db res =
         rows_loop pf today fails (header_map hs)
           \<lparr>pending = rest, FieldsPerRecord = int (length hs)\<rparr> (Suc i)
           (fst (saveTransaction (fails i) (transaction_of pf today (header_map hs) rec) db))
           (count_row (amounts_of pf (header_map hs) rec) res)"
    using assms by (rule rows_loop_step)
  have fields: "Rows (count_row p res) = Rows res + 1"
    "uRevenue (count_row p res) = fadd (uRevenue res) (fst p)"
    "uGST (count_row p res) = fadd (uGST res) (snd p)"
    "Slabs (count_row p res) = count_slab (fst p) (Slabs res)" for p
    by (simp_all add: count_row_def)
  have slab0: "count_slab (Fin 0) s = s\<lparr>Count0 := Count0 s + 1\<rparr>" for s
    by (simp add: count_slab_def feq_def)
  have slab_inf: "count_slab (if b then NInf else PInf) s = s" for b s
    by (simp add: count_slab_def feq_def)
  have stored: "total_amount_charged (row_of t) = bind_double (TotalAmountCharged t)"
    "gst_amount (row_of t) = bind_double (GSTAmount t)" for t
    by (simp_all add: row_of_def)
  show ?thesis
    by (simp add: step fields stored slab0 slab_inf amounts_of_def transaction_of_def
        bind_double_def saveTransaction_def)
qed


theorem malformed_number_is_zero_witness:
  "example_parser (malformed_row ! lookup (header_map required_columns) ''TOTAL_AMOUNT_CHARGED'') = ErrSyntax \<and>
   processCSV example_parser exampleDate (\<lambda>_. False) [Fields required_columns, Fields malformed_row] initDB =
     ([\<lparr> enrolment_no_date = ''C'', total_amount_charged = Some (Fin 0), gst_amount = Some (Fin 5),
         operator_id = ''OP3'', resident_name = ''Carol'', upload_date = ''2024-01-10'' \<rparr>],
      Inr \<lparr> Filename = [], Rows = 1, uRevenue = Fin 0, uGST = Fin 5,
            Slabs = \<lparr>Count125 = 0, Count75 = 0, Count0 = 1\<rparr> \<rparr>) \<and>
   example_parser (overflow_gst_row ! lookup (header_map required_columns) ''GST_AMOUNT'') = ErrRange False \<and>
   processCSV example_parser exampleDate (\<lambda>_. False) [Fields required_columns, Fields overflow_gst_row] [row_of txA] =
     ([row_of txA],
      Inr \<lparr> Filename = [], Rows = 1, uRevenue = Fin 0, uGST = PInf,
            Slabs = \<lparr>Count125 = 0, Count75 = 0, Count0 = 1\<rparr> \<rparr>)"
proof -
  let ?hm = "header_map required_columns"
  let ?t = "transaction_of example_parser ''2024-01-10'' ?hm malformed_row"
  let ?res = "count_row (amounts_of example_parser ?hm malformed_row) empty_result"
  let ?u = "transaction_of example_parser ''2024-01-10'' ?hm overflow_gst_row"
  let ?res2 = "count_row (amounts_of example_parser ?hm overflow_gst_row) empty_result"
  have len: "length malformed_row = length required_columns"
    by (simp add: malformed_row_def required_columns_def)
  have len2: "length overflow_gst_row = length required_columns"
    by (simp add: overflow_gst_row_def required_columns_def)
  have abc: "example_parser (malformed_row ! lookup ?hm ''TOTAL_AMOUNT_CHARGED'') = ErrSyntax"
    by (simp add: malformed_row_def lookup_example example_parser_def)
  have abc2: "example_parser (overflow_gst_row ! lookup ?hm ''TOTAL_AMOUNT_CHARGED'') = ErrSyntax"
    by (simp add: overflow_gst_row_def lookup_example example_parser_def)
  have big: "example_parser (overflow_gst_row ! lookup ?hm ''GST_AMOUNT'') = ErrRange False"
    by (simp add: overflow_gst_row_def lookup_example example_parser_def)
  have fresh: "\<not> False \<and> EnrolmentNoDate ?t \<notin> set (keys initDB)"
    by (simp add: initDB_def keys_def)
  have held: "False \<or> EnrolmentNoDate ?u \<in> set (keys [row_of txA])"
    by (simp add: keys_def row_of_def transaction_of_def overflow_gst_row_def lookup_example txA_def)
  note inst = malformed_number_is_zero [OF has_required_example len,
      where pf = example_parser and today = "''2024-01-10''" and fails = "\<lambda>_. False"
        and rest = "[]" and i = 0 and db = initDB and res = empty_result
        and amt_negative = False and gst_negative = False]
  note inst2 = malformed_number_is_zero [OF has_required_example len2,
      where pf = example_parser and today = "''2024-01-10''" and fails = "\<lambda>_. False"
        and rest = "[]" and i = 0 and db = "[row_of txA]" and res = empty_result
        and amt_negative = False and gst_negative = False]
  have step: "rows_loop example_parser ''2024-01-10'' (\<lambda>_. False) ?hm
           \<lparr>pending = [Fields malformed_row], FieldsPerRecord = int (length required_columns)\<rparr> 0 initDB empty_result =
         rows_loop example_parser ''2024-01-10'' (\<lambda>_. False) ?hm
           \<lparr>pending = [], FieldsPerRecord = int (length required_columns)\<rparr> (Suc 0)
           (fst (saveTransaction False ?t initDB)) ?res"
    using inst by blast
  have step2: "rows_loop example_parser ''2024-01-10'' (\<lambda>_. False) ?hm
           \<lparr>pending = [Fields overflow_gst_row], FieldsPerRecord = int (length required_columns)\<rparr> 0 [row_of txA] empty_result =
         rows_loop example_parser ''2024-01-10'' (\<lambda>_. False) ?hm
           \<lparr>pending = [], FieldsPerRecord = int (length required_columns)\<rparr> (Suc 0)
           (fst (saveTransaction False ?u [row_of txA])) ?res2"
    using inst2 by blast
  have stored: "fst (saveTransaction False ?t initDB) = initDB @ [row_of ?t]"
    using inst fresh by blast
  have kept: "fst (saveTransaction False ?u [row_of txA]) = [row_of txA]"
    using inst2 held by blast
  have zero: "total_amount_charged (row_of ?t) = Some (Fin 0) \<and>
      uRevenue ?res = fadd (uRevenue empty_result) (Fin 0) \<and>
      Slabs ?res = (Slabs empty_result)\<lparr>Count0 := Count0 (Slabs empty_result) + 1\<rparr>"
    using inst abc by blast
  have zero2: "uRevenue ?res2 = fadd (uRevenue empty_result) (Fin 0) \<and>
      Slabs ?res2 = (Slabs empty_result)\<lparr>Count0 := Count0 (Slabs empty_result) + 1\<rparr>"
    using inst2 abc2 by blast
  have inf2: "uGST ?res2 = fadd (uGST empty_result) (if False then NInf else PInf)"
    using inst2 big by blast
  have row: "row_of ?t = \<lparr> enrolment_no_date = ''C'', total_amount_charged = Some (Fin 0),
      gst_amount = Some (Fin 5), operator_id = ''OP3'', resident_name = ''Carol'',
      upload_date = ''2024-01-10'' \<rparr>"
    using zero
    by (simp add: row_of_def transaction_of_def amounts_of_def malformed_row_def lookup_example
        example_parser_def bind_double_def)
  have res: "?res = \<lparr> Filename = [], Rows = 1, uRevenue = Fin 0, uGST = Fin 5,
      Slabs = \<lparr>Count125 = 0, Count75 = 0, Count0 = 1\<rparr> \<rparr>"
    using zero
    by (simp add: count_row_def amounts_of_def malformed_row_def lookup_example example_parser_def
        empty_result_def no_slabs_def round64_example round64_zero count_slab_def feq_def)
  have res2: "?res2 = \<lparr> Filename = [], Rows = 1, uRevenue = Fin 0, uGST = PInf,
      Slabs = \<lparr>Count125 = 0, Count75 = 0, Count0 = 1\<rparr> \<rparr>"
    using zero2 inf2
    by (simp add: count_row_def amounts_of_def overflow_gst_row_def lookup_example example_parser_def
        empty_result_def no_slabs_def round64_zero count_slab_def feq_def)
  have "processCSV example_parser exampleDate (\<lambda>_. False) [Fields required_columns, Fields malformed_row] initDB =
      rows_loop example_parser ''2024-01-10'' (\<lambda>_. False) ?hm
           \<lparr>pending = [Fields malformed_row], FieldsPerRecord = int (length required_columns)\<rparr> 0 initDB empty_result"
    by (simp add: processCSV_def Read_header first_missing_has_required [OF has_required_example]
        Format_exampleDate)
  also have "\<dots> = (initDB @ [row_of ?t], Inr ?res)"
    by (simp only: step stored rows_loop_end)
  finally have first: "processCSV example_parser exampleDate (\<lambda>_. False) [Fields required_columns, Fields malformed_row] initDB =
     ([\<lparr> enrolment_no_date = ''C'', total_amount_charged = Some (Fin 0), gst_amount = Some (Fin 5),
         operator_id = ''OP3'', resident_name = ''Carol'', upload_date = ''2024-01-10'' \<rparr>],
      Inr \<lparr> Filename = [], Rows = 1, uRevenue = Fin 0, uGST = Fin 5,
            Slabs = \<lparr>Count125 = 0, Count75 = 0, Count0 = 1\<rparr> \<rparr>)"
    by (simp only: row res initDB_def append_Nil)
  have "processCSV example_parser exampleDate (\<lambda>_. False) [Fields required_columns, Fields overflow_gst_row] [row_of txA] =
      rows_loop example_parser ''2024-01-10'' (\<lambda>_. False) ?hm
           \<lparr>pending = [Fields overflow_gst_row], FieldsPerRecord = int (length required_columns)\<rparr> 0 [row_of txA] empty_result"
    by (simp add: processCSV_def Read_header first_missing_has_required [OF has_required_example]
        Format_exampleDate)
  also have "\<dots> = ([row_of txA], Inr ?res2)"
    by (simp only: step2 kept rows_loop_end)
  finally have second: "processCSV example_parser exampleDate (\<lambda>_. False) [Fields required_columns, Fields overflow_gst_row] [row_of txA] =
     ([row_of txA],
      Inr \<lparr> Filename = [], Rows = 1, uRevenue = Fin 0, uGST = PInf,
            Slabs = \<lparr>Count125 = 0, Count75 = 0, Count0 = 1\<rparr> \<rparr>)"
    by (simp only: res2)
  from abc first big second show ?thesis by blast
qed

text \<open>
  C6, as the claim has it: every field that fails to parse is taken as zero. The amount
  \<^verbatim>\<open>1e999\<close> fails to parse (\<^verbatim>\<open>ErrRange\<close>), and its row is written with the amount +Inf,
  adds +Inf to the revenue and is counted in no slab.
\<close>

theorem out_of_range_number_is_not_zero:
  "example_parser (overflow_row ! lookup (header_map required_columns) ''TOTAL_AMOUNT_CHARGED'') = ErrRange False \<and>
   processCSV example_parser exampleDate (\<lambda>_. False) [Fields required_columns, Fields overflow_row] initDB =
     ([\<lparr> enrolment_no_date = ''D'', total_amount_charged = Some PInf, gst_amount = Some (Fin 5),
         operator_id = ''OP4'', resident_name = ''Dan'', upload_date = ''2024-01-10'' \<rparr>],
      Inr \<lparr> Filename = [], Rows = 1, uRevenue = PInf, uGST = Fin 5,
            Slabs = \<lparr>Count125 = 0, Count75 = 0, Count0 = 0\<rparr> \<rparr>)"
proof -
  have len: "\<forall>rec \<in> set [overflow_row]. length rec = length required_columns"
    by (simp add: overflow_row_def required_columns_def)
  have "processCSV example_parser exampleDate (\<lambda>_. False) (Fields required_columns # map Fields [overflow_row]) initDB =
      (save_all (inserts_of example_parser (Format_2006_01_02 exampleDate) (\<lambda>_. False) (header_map required_columns) 0 [overflow_row]) initDB,
       Inr (summary_of example_parser (header_map required_columns) [overflow_row]))"
    using has_required_example len by (rule processCSV_good)
  moreover have "summary_of example_parser (header_map required_columns) [overflow_row] =
      \<lparr> Filename = [], Rows = 1, uRevenue = PInf, uGST = Fin 5,
        Slabs = \<lparr>Count125 = 0, Count75 = 0, Count0 = 0\<rparr> \<rparr>"
    by (simp add: summary_of_def aggregate_def amounts_of_def overflow_row_def lookup_example
        example_parser_def slabs_of_def slab_count_def feq_def round64_example)
  moreover have "save_all (inserts_of example_parser ''2024-01-10'' (\<lambda>_. False) (header_map required_columns) 0 [overflow_row]) initDB =
      [\<lparr> enrolment_no_date = ''D'', total_amount_charged = Some PInf, gst_amount = Some (Fin 5),
         operator_id = ''OP4'', resident_name = ''Dan'', upload_date = ''2024-01-10'' \<rparr>]"
    by (simp add: inserts_of_def transaction_of_def amounts_of_def overflow_row_def lookup_example
        example_parser_def saveTransaction_def initDB_def keys_def row_of_def bind_double_def)
  ultimately show ?thesis
    by (simp add: Format_exampleDate overflow_row_def lookup_example example_parser_def)
qed


subsection \<open>Upload dates and the reset\<close>

lemma Format_nonempty: "Format_2006_01_02 d \<noteq> []"
  by (simp add: Format_2006_01_02_def)

lemma reachable_dates: "reachable db \<Longrightarrow> \<forall>r \<in> set db. upload_date r \<noteq> []"
proof (induction rule: reachable.induct)
  case reach_init
  show ?case by (simp add: initDB_def)
next
  case (reach_save db t now exec_fails)
  then show ?case
    by (auto simp: saveTransaction_def row_of_def Format_nonempty)
next
  case (reach_reset db http_method query_fails exec_fails)
  then show ?case
    by (auto simp: handleReset_def split: option.splits if_splits)
qed

lemma max_string_Max:
  assumes "xs \<noteq> []"
  shows "max_string xs = Some (Max (set xs))"
proof (cases xs)
  case Nil
  with assms show ?thesis by simp
next
  case (Cons x ys)
  then show ?thesis using Max.set_eq_fold [of x ys] by simp
qed

lemma handleReset_latest:
  assumes "db \<noteq> []" and "\<forall>r \<in> set db. upload_date r \<noteq> []"
  shows "handleReset ''POST'' False False db =
     (filter (\<lambda>r. upload_date r \<noteq> Max (set (map upload_date db))) db, Redirect ''/'' 303)"
proof -
  from assms(1) have m: "max_string (map upload_date db) = Some (Max (set (map upload_date db)))"
    by (simp add: max_string_Max)
  from assms(1) have "Max (set (map upload_date db)) \<in> set (map upload_date db)"
    by (intro Max_in) simp_all
  with assms(2) have "Max (set (map upload_date db)) \<noteq> []" by auto
  with m show ?thesis
    by (simp add: handleReset_def select_max_upload_date_def)
qed

lemma handleReset_empty: "handleReset ''POST'' query_fails exec_fails [] = ([], Redirect ''/'' 303)"
  by (simp add: handleReset_def select_max_upload_date_def)

text \<open>
  C7. In every table the program can reach that holds a row, a reset (a POST whose two
  statements run) removes exactly the rows whose \<^verbatim>\<open>upload_date\<close> is the greatest in the table
  and keeps every other row as it is and in place. On the empty table it changes nothing and
  answers with the same redirect. With rows on exactly two dates D1 < D2 the first reset
  leaves the rows of D1 and the second leaves none.
\<close>

theorem reset_removes_latest_batch:
  assumes "reachable db"
  shows "(db \<noteq> [] \<longrightarrow>
            handleReset ''POST'' False False db =
              (filter (\<lambda>r. upload_date r \<noteq> Max (set (map upload_date db))) db, Redirect ''/'' 303)) \<and>
         handleReset ''POST'' query_fails exec_fails initDB = (initDB, Redirect ''/'' 303) \<and>
         (set (map upload_date db) = {D1, D2} \<and> D1 < D2 \<longrightarrow>
            fst (handleReset ''POST'' False False db) = filter (\<lambda>r. upload_date r = D1) db \<and>
            fst (handleReset ''POST'' False False db) \<noteq> [] \<and>
            fst (handleReset ''POST'' False False (fst (handleReset ''POST'' False False db))) = [])"
proof (intro conjI impI)
  from assms have dates: "\<forall>r \<in> set db. upload_date r \<noteq> []" by (rule reachable_dates)
  {
    assume "db \<noteq> []"
    then show "handleReset ''POST'' False False db =
              (filter (\<lambda>r. upload_date r \<noteq> Max (set (map upload_date db))) db, Redirect ''/'' 303)"
      using dates by (rule handleReset_latest)
  }
  show "handleReset ''POST'' query_fails exec_fails initDB = (initDB, Redirect ''/'' 303)"
    by (simp add: initDB_def handleReset_empty)
  {
    assume two: "set (map upload_date db) = {D1, D2} \<and> D1 < D2"
    then have ne: "db \<noteq> []" by auto
    from two have mx: "Max (set (map upload_date db)) = D2" by (auto simp: max_def)
    from two have each: "\<forall>r \<in> set db. upload_date r = D1 \<or> upload_date r = D2" by auto
    from two have "D1 \<noteq> D2" by auto
    with each have "filter (\<lambda>r. upload_date r \<noteq> D2) db = filter (\<lambda>r. upload_date r = D1) db"
      by (intro filter_cong) auto
    with handleReset_latest [OF ne dates] mx
    show first: "fst (handleReset ''POST'' False False db) = filter (\<lambda>r. upload_date r = D1) db"
      by simp
    from two have "D1 \<in> upload_date ` set db" by auto
    then have ne1: "filter (\<lambda>r. upload_date r = D1) db \<noteq> []"
      by (auto simp: filter_empty_conv)
    with first show "fst (handleReset ''POST'' False False db) \<noteq> []" by simp
    have dates1: "\<forall>r \<in> set (filter (\<lambda>r. upload_date r = D1) db). upload_date r \<noteq> []"
      using dates by auto
    from ne1 have "set (map upload_date (filter (\<lambda>r. upload_date r = D1) db)) = {D1}"
      by (auto simp: filter_empty_conv)
    then have "Max (set (map upload_date (filter (\<lambda>r. upload_date r = D1) db))) = D1" by simp
    with handleReset_latest [OF ne1 dates1] first
    show "fst (handleReset ''POST'' False False (fst (handleReset ''POST'' False False db))) = []"
      by simp
  }
qed

lemma Format_nextDate: "Format_2006_01_02 nextDate = ''2024-01-11''"
  by code_simp

lemma reachable_three: "reachable [row_of txA, row_of txB, row_of txC]"
proof -
  have "reachable (fst (saveTransaction False txB [row_of txA]))"
    by (rule reach_save [OF reachable_rowA, of txB exampleDate])
       (simp add: txB_def Format_exampleDate)
  then have b: "reachable [row_of txA, row_of txB]"
    by (simp add: saveTransaction_def keys_def row_of_def txA_def txB_def)
  have "reachable (fst (saveTransaction False txC [row_of txA, row_of txB]))"
    by (rule reach_save [OF b, of txC nextDate]) (simp add: txC_def Format_nextDate)
  then show ?thesis
    by (simp add: saveTransaction_def keys_def row_of_def txA_def txB_def txC_def)
qed

theorem reset_removes_latest_batch_witness:
  "reachable [row_of txA, row_of txB, row_of txC] \<and>
   handleReset ''POST'' False False [row_of txA, row_of txB, row_of txC] =
     ([row_of txA, row_of txB], Redirect ''/'' 303) \<and>
   fst (handleReset ''POST'' False False [row_of txA, row_of txB]) = [] \<and>
   handleReset ''POST'' False False initDB = (initDB, Redirect ''/'' 303)"
proof -
  let ?db = "[row_of txA, row_of txB, row_of txC]"
  have d: "set (map upload_date ?db) = {''2024-01-10'', ''2024-01-11''} \<and> ''2024-01-10'' < ''2024-01-11''"
    by (auto simp: row_of_def txA_def txB_def txC_def)
  have f: "filter (\<lambda>r. upload_date r = ''2024-01-10'') ?db = [row_of txA, row_of txB]"
    by (simp add: row_of_def txA_def txB_def txC_def)
  have m: "filter (\<lambda>r. upload_date r \<noteq> Max (set (map upload_date ?db))) ?db = [row_of txA, row_of txB]"
    by (simp add: row_of_def txA_def txB_def txC_def max_def)
  note inst = reset_removes_latest_batch [OF reachable_three, of False False "''2024-01-10''" "''2024-01-11''"]
  have 1: "handleReset ''POST'' False False ?db = ([row_of txA, row_of txB], Redirect ''/'' 303)"
    using inst m by simp
  have 2: "fst (handleReset ''POST'' False False (fst (handleReset ''POST'' False False ?db))) = []"
    using inst d by blast
  have 3: "handleReset ''POST'' False False initDB = (initDB, Redirect ''/'' 303)"
    using inst by blast
  from 1 2 3 reachable_three show ?thesis by simp
qed


subsection \<open>Grouping\<close>

lemma Period_Scan_history:
  "Period (Scan_history g) = (case g_period g of None \<Rightarrow> [] | Some p \<Rightarrow> p)"
  by (simp add: Scan_history_def zero_HistoryRow_def split: option.splits)

lemma g_period_aggregate_group [simp]: "g_period (aggregate_group sql_sum k rows) = k"
  by (simp add: aggregate_group_def)

lemma g_total_aggregate_group [simp]: "g_total (aggregate_group sql_sum k rows) = length rows"
  by (simp add: aggregate_group_def)

lemma periods_desc_set [simp]: "set (periods_desc ks) = set ks"
  by (simp add: periods_desc_def)

lemma periods_desc_distinct [simp]: "distinct (periods_desc ks)"
  by (simp add: periods_desc_def)

lemma periods_desc_length: "length (periods_desc ks) = card (set ks)"
  by (simp add: periods_desc_def length_remdups_card_conv)

lemma periods_desc_sorted: "sorted (rev (periods_desc ks))"
  by (simp add: periods_desc_def)

lemma period_text_mono: "k \<le> k' \<Longrightarrow> period_text k \<le> period_text k'"
  by (cases k; cases k') (simp_all add: period_text_def)

lemma sorted_period_text: "sorted ks \<Longrightarrow> sorted (map period_text ks)"
  by (induction ks) (auto simp: period_text_mono)

lemma Periods_query_groups:
  "map (Period \<circ> Scan_history) (query_groups strftime sql_sum period fromDate toDate db) =
     map period_text (periods_desc (map (period_of strftime period) (filter (date_filter fromDate toDate) db)))"
  by (simp add: query_groups_def Let_def Period_Scan_history period_text_def comp_def)

lemma indicator_sum_distinct:
  "distinct ks \<Longrightarrow> a \<in> set ks \<Longrightarrow> sum_list (map (\<lambda>k. if a = k then 1 else 0) ks) = (1::nat)"
  by (induction ks) auto

lemma group_sizes_sum:
  assumes "distinct ks" and "f ` set xs \<subseteq> set ks"
  shows "sum_list (map (\<lambda>k. length (filter (\<lambda>r. f r = k) xs)) ks) = length xs"
  using assms(2)
proof (induction xs)
  case Nil
  show ?case by simp
next
  case (Cons x xs)
  then have x: "f x \<in> set ks" and rest: "f ` set xs \<subseteq> set ks" by auto
  have "sum_list (map (\<lambda>k. length (filter (\<lambda>r. f r = k) (x # xs))) ks) =
      sum_list (map (\<lambda>k. (if f x = k then 1 else 0) + length (filter (\<lambda>r. f r = k) xs)) ks)"
    by (intro arg_cong [where f = sum_list] map_cong) auto
  also have "\<dots> = sum_list (map (\<lambda>k. if f x = k then 1 else 0) ks) +
      sum_list (map (\<lambda>k. length (filter (\<lambda>r. f r = k) xs)) ks)"
    by (simp add: sum_list_addf)
  also have "\<dots> = 1 + length xs"
    by (simp only: indicator_sum_distinct [OF assms(1) x] Cons.IH [OF rest])
  finally show ?case by simp
qed

lemma totals_query_groups:
  "sum_list (map g_total (query_groups strftime sql_sum period fromDate toDate db)) =
     length (filter (date_filter fromDate toDate) db)"
proof -
  let ?rows = "filter (date_filter fromDate toDate) db"
  let ?ks = "periods_desc (map (period_of strftime period) ?rows)"
  have "sum_list (map (\<lambda>k. length (filter (\<lambda>r. period_of strftime period r = k) ?rows)) ?ks) = length ?rows"
    by (rule group_sizes_sum) simp_all
  then show ?thesis
    by (simp add: query_groups_def Let_def comp_def)
qed

lemma date_filter_none [simp]: "date_filter [] [] r"
  by (simp add: date_filter_def)

lemma period_of_day: "period_of strftime ''day'' r = Some (upload_date r)"
  by (simp add: period_of_def groupExpr_def)

subsection \<open>The week number of \<^verbatim>\<open>%W\<close>\<close>

lemma week_arith_residue:
  fixes n j :: nat
  assumes "j < 7"
  shows "(n + 7 - (j + n) mod 7) div 7 =
     (if n < (7 - j) mod 7 then 0 else (n - (7 - j) mod 7) div 7 + 1)"
proof -
  define fm where "fm = (7 - j) mod 7"
  have fm: "fm < 7" by (simp add: fm_def)
  have jf: "j + fm = 0 \<or> j + fm = 7"
    using assms by (cases "j = 0") (simp_all add: fm_def)
  show ?thesis
  proof (cases "n < fm")
    case True
    with jf fm have "j + n < 7" and "0 < j" by auto
    then have "(j + n) mod 7 = j + n" by simp
    then have "n + 7 - (j + n) mod 7 = 7 - j" by simp
    with \<open>0 < j\<close> have "(n + 7 - (j + n) mod 7) div 7 = 0" by simp
    with True show ?thesis by (simp add: fm_def)
  next
    case False
    define m where "m = n - fm"
    define q where "q = m div 7"
    define r where "r = m mod 7"
    have n: "n = fm + m" using False by (simp add: m_def)
    have m: "m = 7 * q + r" and r: "r < 7" by (simp_all add: q_def r_def)
    have "(j + n) mod 7 = (j + fm + m) mod 7" by (simp add: n add.assoc)
    also have "\<dots> = m mod 7" using jf by auto
    finally have "(j + n) mod 7 = r" by (simp add: r_def)
    then have "n + 7 - (j + n) mod 7 = fm + 7 * (q + 1)" by (simp add: n m)
    then have "(n + 7 - (j + n) mod 7) div 7 = q + 1" using fm by simp
    with False show ?thesis by (simp add: fm_def [symmetric] m_def [symmetric] q_def)
  qed
qed

lemma week_arith:
  fixes n b :: nat
  shows "(n + 7 - (b + n) mod 7) div 7 =
     (if n < (7 - b mod 7) mod 7 then 0 else (n - (7 - b mod 7) mod 7) div 7 + 1)"
proof -
  have "(b + n) mod 7 = (b mod 7 + n) mod 7" by (simp add: mod_add_left_eq)
  then show ?thesis using week_arith_residue [of "b mod 7" n] by simp
qed

lemma days_after_jan01_first: "days_after_jan01 \<lparr> year = y, month = 1, day = 1 \<rparr> = 0"
  by (simp add: days_after_jan01_def)

lemma days_since_epoch_split:
  "days_since_epoch d = days_since_epoch \<lparr> year = year d, month = 1, day = 1 \<rparr> + days_after_jan01 d"
  by (simp only: days_since_epoch_def Let_def days_after_jan01_first civil_date.select_convs add_0_right)

lemma week_W_in_words: "week_W d = week_from_first_monday d"
proof -
  let ?b = "days_since_epoch \<lparr> year = year d, month = 1, day = 1 \<rparr>"
  have f: "first_monday (year d) = (7 - ?b mod 7) mod 7"
    by (simp only: first_monday_def days_after_monday_def)
  have w: "days_after_monday d = (?b + days_after_jan01 d) mod 7"
    using days_since_epoch_split [of d] by (simp only: days_after_monday_def)
  show ?thesis
    using week_arith [of "days_after_jan01 d" ?b]
    by (simp only: week_W_def week_from_first_monday_def f w)
qed

lemma year_length:
  assumes "1 \<le> m" and "m \<le> 12"
  shows "sum_list (map (days_in_month y) [1..<m]) + days_in_month y m \<le> 366"
    and "days_in_month y m \<le> 31"
proof -
  from assms have "m = 1 \<or> m = 2 \<or> m = 3 \<or> m = 4 \<or> m = 5 \<or> m = 6 \<or> m = 7
    \<or> m = 8 \<or> m = 9 \<or> m = 10 \<or> m = 11 \<or> m = 12"
    by arith
  then consider "m = 1" | "m = 2" | "m = 3" | "m = 4" | "m = 5" | "m = 6" | "m = 7"
    | "m = 8" | "m = 9" | "m = 10" | "m = 11" | "m = 12"
    by blast
  then show "sum_list (map (days_in_month y) [1..<m]) + days_in_month y m \<le> 366"
    by cases (simp_all add: days_in_month_def upt_conv_Cons)
  from assms have "m = 1 \<or> m = 2 \<or> m = 3 \<or> m = 4 \<or> m = 5 \<or> m = 6 \<or> m = 7
    \<or> m = 8 \<or> m = 9 \<or> m = 10 \<or> m = 11 \<or> m = 12"
    by arith
  then consider "m = 1" | "m = 2" | "m = 3" | "m = 4" | "m = 5" | "m = 6" | "m = 7"
    | "m = 8" | "m = 9" | "m = 10" | "m = 11" | "m = 12"
    by blast
  then show "days_in_month y m \<le> 31"
    by cases (simp_all add: days_in_month_def)
qed

lemma days_after_jan01_bound:
  assumes "valid_date d"
  shows "days_after_jan01 d \<le> 365"
proof -
  from assms have m: "1 \<le> month d" "month d \<le> 12"
    and dd: "1 \<le> day d" "day d \<le> days_in_month (year d) (month d)"
    by (simp_all add: valid_date_def)
  from year_length(1) [OF m, of "year d"] dd show ?thesis
    unfolding days_after_jan01_def by linarith
qed

lemma week_W_bound: "valid_date d \<Longrightarrow> week_W d \<le> 53"
  using days_after_jan01_bound [of d] by (simp add: week_W_def)

subsection \<open>Date texts\<close>

lemma digit_value_digit: "k < 10 \<Longrightarrow> digit_value (''0123456789'' ! k) = Some k"
proof -
  assume "k < 10"
  then have "k = 0 \<or> k = 1 \<or> k = 2 \<or> k = 3 \<or> k = 4 \<or> k = 5 \<or> k = 6
    \<or> k = 7 \<or> k = 8 \<or> k = 9"
    by arith
  then consider "k = 0" | "k = 1" | "k = 2" | "k = 3" | "k = 4" | "k = 5" | "k = 6"
    | "k = 7" | "k = 8" | "k = 9"
    by blast
  then show ?thesis by cases (simp_all add: digit_value_def)
qed

lemma decimal_nonempty: "decimal n \<noteq> []"
  by (subst decimal.simps) simp

lemma decimal_digits: "list_all (\<lambda>c. digit_value c \<noteq> None) (decimal n)"
proof (induction n rule: decimal.induct)
  case (1 n)
  show ?case
  proof (cases "n < 10")
    case True
    then show ?thesis by (subst decimal.simps) (simp add: digit_value_digit)
  next
    case False
    with "1.IH" show ?thesis
      by (subst decimal.simps) (simp add: digit_value_digit)
  qed
qed

lemma decimal_value: "foldl (\<lambda>a c. 10 * a + the (digit_value c)) 0 (decimal n) = n"
proof (induction n rule: decimal.induct)
  case (1 n)
  show ?case
  proof (cases "n < 10")
    case True
    then show ?thesis by (subst decimal.simps) (simp add: digit_value_digit)
  next
    case False
    with "1.IH" show ?thesis
      by (subst decimal.simps) (simp add: digit_value_digit)
  qed
qed

lemma decimal_length: "0 < k \<Longrightarrow> n < 10 ^ k \<Longrightarrow> length (decimal n) \<le> k"
proof (induction k arbitrary: n)
  case 0
  then show ?case by simp
next
  case (Suc k)
  show ?case
  proof (cases "n < 10")
    case True
    then show ?thesis by (subst decimal.simps) simp
  next
    case False
    with Suc.prems have k: "0 < k" by (cases k) simp_all
    from Suc.prems have "n div 10 < 10 ^ k" by (simp add: less_mult_imp_div_less mult.commute)
    with k have "length (decimal (n div 10)) \<le> k" by (rule Suc.IH)
    with False show ?thesis by (subst decimal.simps) simp
  qed
qed

lemma zero_pad_length: "0 < k \<Longrightarrow> n < 10 ^ k \<Longrightarrow> length (zero_pad k n) = k"
  using decimal_length [of k n] by (simp add: zero_pad_def)

lemma zeros_value: "foldl (\<lambda>a c. 10 * a + the (digit_value c)) 0 (replicate j (CHR ''0'')) = 0"
  by (induction j) (simp_all add: digit_value_def)

lemma number_of_nonempty:
  "cs \<noteq> [] \<Longrightarrow> number_of cs =
     (if list_all (\<lambda>c. digit_value c \<noteq> None) cs
      then Some (foldl (\<lambda>n c. 10 * n + the (digit_value c)) 0 cs) else None)"
  by (cases cs) simp_all

lemma number_of_zero_pad: "number_of (zero_pad k n) = Some n"
proof -
  have "zero_pad k n \<noteq> []" by (simp add: zero_pad_def decimal_nonempty)
  moreover have "list_all (\<lambda>c. digit_value c \<noteq> None) (zero_pad k n)"
  proof -
    have z: "digit_value (CHR ''0'') \<noteq> None" by (simp add: digit_value_def)
    have "\<forall>c \<in> set (decimal n). digit_value c \<noteq> None"
      using decimal_digits [of n] by (simp only: list_all_iff)
    with z show ?thesis by (auto simp: zero_pad_def list_all_iff)
  qed
  moreover have "foldl (\<lambda>a c. 10 * a + the (digit_value c)) 0 (zero_pad k n) = n"
    by (simp add: zero_pad_def zeros_value decimal_value)
  ultimately show ?thesis by (simp add: number_of_nonempty)
qed

lemma parse_three_fields:
  assumes "length a = 4" and "length b = 2" and "length c = 2"
  shows "parse_date (a @ ''-'' @ b @ ''-'' @ c) =
     (case (number_of a, number_of b, number_of c) of
        (Some y, Some m, Some d) \<Rightarrow>
          (let cd = \<lparr> year = y, month = m, day = d \<rparr> in if valid_date cd then Some cd else None)
      | _ \<Rightarrow> None)"
  using assms by (simp add: parse_date_def nth_append)

lemma parse_date_Format:
  assumes "valid_date d"
  shows "parse_date (Format_2006_01_02 d) = Some d"
proof -
  from assms have y: "year d < 10 ^ 4" and m: "month d < 10 ^ 2"
    by (simp_all add: valid_date_def)
  from assms have "day d \<le> 31"
    using year_length(2) [of "month d" "year d"] by (simp add: valid_date_def)
  then have dd: "day d < 10 ^ 2" by simp
  have l: "length (zero_pad 4 (year d)) = 4" "length (zero_pad 2 (month d)) = 2"
    "length (zero_pad 2 (day d)) = 2"
    using y m dd by (simp_all add: zero_pad_length)
  have "parse_date (Format_2006_01_02 d) =
      parse_date (zero_pad 4 (year d) @ ''-'' @ zero_pad 2 (month d) @ ''-'' @ zero_pad 2 (day d))"
    by (simp add: Format_2006_01_02_def)
  also have "\<dots> =
      (case (number_of (zero_pad 4 (year d)), number_of (zero_pad 2 (month d)),
             number_of (zero_pad 2 (day d))) of
        (Some y, Some m, Some d) \<Rightarrow>
          (let cd = \<lparr> year = y, month = m, day = d \<rparr> in if valid_date cd then Some cd else None)
      | _ \<Rightarrow> None)"
    by (rule parse_three_fields [OF l])
  also have "\<dots> = Some d"
  proof (cases d)
    case (fields y m dd)
    with assms show ?thesis by (simp add: number_of_zero_pad Let_def)
  qed
  finally show ?thesis .
qed

lemma parse_date_valid: "parse_date s = Some d \<Longrightarrow> valid_date d"
  by (auto simp: parse_date_def Let_def split: if_splits option.splits)

lemma strftime_on_date:
  assumes "parse_date s = Some d"
  shows "sqlite_strftime other ''%Y-W%W'' s = Some (zero_pad 4 (year d) @ ''-W'' @ zero_pad 2 (week_W d))"
    and "sqlite_strftime other ''%Y-%m'' s = Some (zero_pad 4 (year d) @ ''-'' @ zero_pad 2 (month d))"
    and "sqlite_strftime other ''%Y'' s = Some (zero_pad 4 (year d))"
  using assms by (simp_all add: sqlite_strftime_def conversion_def)

subsection \<open>The rows of a history query\<close>

lemma getHistory_plain:
  "plain_literal fromDate \<Longrightarrow> plain_literal toDate \<Longrightarrow>
   getHistory strftime sql_sum other_statement query_fails period fromDate toDate db =
     (if query_fails then []
      else map Scan_history (query_groups strftime sql_sum period fromDate toDate db))"
  by (simp add: getHistory_def)

lemma plain_literal_empty [simp]: "plain_literal []"
  by (simp add: plain_literal_def)

lemma Total_Scan_history:
  "Total (Scan_history g) =
     (if g_period g \<noteq> None \<and> g_revenue g \<noteq> None \<and> g_gst g \<noteq> None then of_nat (g_total g) else 0)"
  by (simp add: Scan_history_def zero_HistoryRow_def split: option.splits)

lemma day_row:
  assumes "h \<in> set (map Scan_history (query_groups strftime sql_sum ''day'' [] [] db))"
  shows "h = Scan_history (aggregate_group sql_sum (Some (Period h))
                             (filter (\<lambda>r. upload_date r = Period h) db))"
proof -
  from assms obtain k where k: "k \<in> set (map (period_of strftime ''day'') db)"
    and h: "h = Scan_history (aggregate_group sql_sum k
                                (filter (\<lambda>r. period_of strftime ''day'' r = k) db))"
    by (auto simp: query_groups_def Let_def)
  from k obtain p where p: "k = Some p" by (auto simp: period_of_day)
  from h p have "Period h = p" by (simp add: Period_Scan_history)
  with h p show ?thesis by (simp add: period_of_day)
qed

lemma day_row_Total:
  assumes "h \<in> set (map Scan_history (query_groups strftime sql_sum ''day'' [] [] db))"
  shows "Total h =
     (if sql_sum (map total_amount_charged (filter (\<lambda>r. upload_date r = Period h) db)) \<noteq> None \<and>
         sql_sum (map gst_amount (filter (\<lambda>r. upload_date r = Period h) db)) \<noteq> None
      then of_nat (length (filter (\<lambda>r. upload_date r = Period h) db)) else 0)"
proof -
  let ?g = "aggregate_group sql_sum (Some (Period h)) (filter (\<lambda>r. upload_date r = Period h) db)"
  have "Total h = Total (Scan_history ?g)"
    using day_row [OF assms] by simp
  also have "\<dots> = (if g_period ?g \<noteq> None \<and> g_revenue ?g \<noteq> None \<and> g_gst ?g \<noteq> None
                    then of_nat (g_total ?g) else 0)"
    by (rule Total_Scan_history)
  also have "\<dots> =
     (if sql_sum (map total_amount_charged (filter (\<lambda>r. upload_date r = Period h) db)) \<noteq> None \<and>
         sql_sum (map gst_amount (filter (\<lambda>r. upload_date r = Period h) db)) \<noteq> None
      then of_nat (length (filter (\<lambda>r. upload_date r = Period h) db)) else 0)"
    by (simp add: aggregate_group_def)
  finally show ?thesis .
qed

lemma distinct_map_Ex1:
  assumes "distinct (map f xs)" and "y \<in> set (map f xs)"
  shows "\<exists>!i. i < length xs \<and> f (xs ! i) = y"
proof -
  from assms have "\<exists>!i. i < length (map f xs) \<and> map f xs ! i = y"
    by (rule distinct_Ex1)
  moreover have "(i < length (map f xs) \<and> map f xs ! i = y) = (i < length xs \<and> f (xs ! i) = y)" for i
    by auto
  ultimately show ?thesis by simp
qed

lemma period_of_parsed:
  assumes "parse_date (upload_date r) = Some d"
  shows "period_of (sqlite_strftime other) ''week'' r =
           Some (zero_pad 4 (year d) @ ''-W'' @ zero_pad 2 (week_W d))"
    and "period_of (sqlite_strftime other) ''month'' r =
           Some (zero_pad 4 (year d) @ ''-'' @ zero_pad 2 (month d))"
    and "period_of (sqlite_strftime other) ''year'' r = Some (zero_pad 4 (year d))"
  using strftime_on_date [OF assms, of other]
  by (simp_all only: period_of_def groupExpr_def) simp_all

text \<open>
  C5, as the code has it. Take two date bounds that hold no single quote and no NUL byte, so
  that the text spliced between the quotes is the string literal meant. When the query fails
  \<^verbatim>\<open>getHistory\<close> returns no row. When it runs, \<^verbatim>\<open>getHistory\<close> returns one row for each distinct
  bucket key among the rows that pass the date filter, in descending order of the key. The
  key is the raw \<^verbatim>\<open>upload_date\<close> for day (and for any period that is not week, month or
  year), \<^verbatim>\<open>strftime('%Y-W%W')\<close> for week, \<^verbatim>\<open>strftime('%Y-%m')\<close> for month and
  \<^verbatim>\<open>strftime('%Y')\<close> for year. On a row whose \<^verbatim>\<open>upload_date\<close> is the text \<^verbatim>\<open>YYYY-MM-DD\<close> of a
  calendar date, as every text written by \<^verbatim>\<open>time.Now().Format("2006-01-02")\<close> is, the week key
  is the four-digit calendar year, \<^verbatim>\<open>-W\<close> and the two-digit week number of \<^verbatim>\<open>%W\<close>; that number
  is at most 53, is 00 on the days before the first Monday of the year and 01 on the seven
  days from that Monday; the month key is the year, \<^verbatim>\<open>-\<close> and the two-digit month, and the
  year key the four-digit year.

  With day and no date filter the rows returned carry exactly the dates present in the table,
  each once, so every stored row has exactly one returned row with its date. The \<^verbatim>\<open>Total\<close> of
  a returned row is the number of stored rows of its date when both sums of that date's rows
  are not NULL; when one is NULL, \<^verbatim>\<open>Scan\<close> stops there and \<^verbatim>\<open>Total\<close> stays 0.
\<close>

theorem history_buckets:
  assumes "plain_literal fromDate" and "plain_literal toDate"
    and "hs = getHistory (sqlite_strftime other) sql_sum other_statement False period fromDate toDate db"
  shows "getHistory (sqlite_strftime other) sql_sum other_statement True period fromDate toDate db = [] \<and>
         length hs = card (buckets (sqlite_strftime other) period fromDate toDate db) \<and>
         sorted (rev (map Period hs)) \<and>
         set (map Period hs) = period_text ` buckets (sqlite_strftime other) period fromDate toDate db \<and>
         (None \<notin> buckets (sqlite_strftime other) period fromDate toDate db \<longrightarrow> distinct (map Period hs)) \<and>
         (period \<noteq> ''week'' \<and> period \<noteq> ''month'' \<and> period \<noteq> ''year'' \<longrightarrow>
            period_of (sqlite_strftime other) period r = Some (upload_date r)) \<and>
         period_of (sqlite_strftime other) ''day'' r = Some (upload_date r) \<and>
         period_of (sqlite_strftime other) ''week'' r = sqlite_strftime other ''%Y-W%W'' (upload_date r) \<and>
         period_of (sqlite_strftime other) ''month'' r = sqlite_strftime other ''%Y-%m'' (upload_date r) \<and>
         period_of (sqlite_strftime other) ''year'' r = sqlite_strftime other ''%Y'' (upload_date r) \<and>
         (parse_date (upload_date r) = Some d \<longrightarrow>
            period_of (sqlite_strftime other) ''week'' r =
              Some (zero_pad 4 (year d) @ ''-W'' @ zero_pad 2 (week_W d)) \<and>
            period_of (sqlite_strftime other) ''month'' r =
              Some (zero_pad 4 (year d) @ ''-'' @ zero_pad 2 (month d)) \<and>
            period_of (sqlite_strftime other) ''year'' r = Some (zero_pad 4 (year d)) \<and>
            week_W d \<le> 53 \<and>
            week_W d = (if days_after_jan01 d < first_monday (year d) then 0
                        else (days_after_jan01 d - first_monday (year d)) div 7 + 1)) \<and>
         (valid_date d \<longrightarrow> parse_date (Format_2006_01_02 d) = Some d) \<and>
         (period = ''day'' \<and> fromDate = [] \<and> toDate = [] \<longrightarrow>
            set (map Period hs) = set (map upload_date db) \<and>
            distinct (map Period hs) \<and>
            (\<forall>s \<in> set db. \<exists>!i. i < length hs \<and> Period (hs ! i) = upload_date s) \<and>
            (h \<in> set hs \<longrightarrow>
               Total h =
                 (if sql_sum (map total_amount_charged (filter (\<lambda>s. upload_date s = Period h) db)) \<noteq> None \<and>
                     sql_sum (map gst_amount (filter (\<lambda>s. upload_date s = Period h) db)) \<noteq> None
                  then of_nat (length (filter (\<lambda>s. upload_date s = Period h) db)) else 0)))"
proof -
  let ?S = "sqlite_strftime other"
  let ?rows = "filter (date_filter fromDate toDate) db"
  let ?ks = "map (period_of ?S period) ?rows"
  let ?hs = "map Scan_history (query_groups ?S sql_sum period fromDate toDate db)"
  have res: "hs = ?hs"
    using assms by (simp add: getHistory_plain)
  have failed: "getHistory ?S sql_sum other_statement True period fromDate toDate db = []"
    using assms(1,2) by (simp add: getHistory_plain)
  have periods: "map Period ?hs = map period_text (periods_desc ?ks)"
    using Periods_query_groups [of ?S sql_sum period fromDate toDate db] by simp
  have len: "length ?hs = card (buckets ?S period fromDate toDate db)"
    by (simp add: query_groups_def Let_def periods_desc_length buckets_def)
  have "sorted (map period_text (rev (periods_desc ?ks)))"
    by (intro sorted_period_text periods_desc_sorted)
  then have srt: "sorted (rev (map Period ?hs))"
    by (simp only: periods rev_map)
  have st: "set (map Period ?hs) = period_text ` buckets ?S period fromDate toDate db"
    by (simp only: periods buckets_def set_map periods_desc_set)
  have dst: "distinct (map Period ?hs)" if "None \<notin> buckets ?S period fromDate toDate db"
  proof -
    have "inj_on period_text (set (periods_desc ?ks))"
    proof (rule inj_onI)
      fix k k'
      assume k: "k \<in> set (periods_desc ?ks)" and k': "k' \<in> set (periods_desc ?ks)"
        and eq: "period_text k = period_text k'"
      from k k' have "k \<in> buckets ?S period fromDate toDate db"
        and "k' \<in> buckets ?S period fromDate toDate db"
        by (simp_all add: buckets_def)
      with that obtain p p' where "k = Some p" and "k' = Some p'"
        by (cases k; cases k') simp_all
      with eq show "k = k'" by (simp add: period_text_def)
    qed
    then show ?thesis by (simp only: periods distinct_map periods_desc_distinct simp_thms)
  qed
  have keys: "period_of ?S period r = Some (upload_date r)"
    if "period \<noteq> ''week'' \<and> period \<noteq> ''month'' \<and> period \<noteq> ''year''"
    using that by (simp add: period_of_def groupExpr_def)
  have parsed: "period_of ?S ''week'' r = Some (zero_pad 4 (year d) @ ''-W'' @ zero_pad 2 (week_W d)) \<and>
      period_of ?S ''month'' r = Some (zero_pad 4 (year d) @ ''-'' @ zero_pad 2 (month d)) \<and>
      period_of ?S ''year'' r = Some (zero_pad 4 (year d)) \<and>
      week_W d \<le> 53 \<and>
      week_W d = (if days_after_jan01 d < first_monday (year d) then 0
                  else (days_after_jan01 d - first_monday (year d)) div 7 + 1)"
    if p: "parse_date (upload_date r) = Some d"
  proof -
    from p have "valid_date d" by (rule parse_date_valid)
    then have "week_W d \<le> 53" by (rule week_W_bound)
    moreover have "week_W d = (if days_after_jan01 d < first_monday (year d) then 0
                  else (days_after_jan01 d - first_monday (year d)) div 7 + 1)"
      using week_W_in_words [of d] by (simp only: week_from_first_monday_def)
    ultimately show ?thesis
      using period_of_parsed [OF p, of other] by blast
  qed
  have day: "set (map Period ?hs) = set (map upload_date db) \<and>
      distinct (map Period ?hs) \<and>
      (\<forall>s \<in> set db. \<exists>!i. i < length ?hs \<and> Period (?hs ! i) = upload_date s) \<and>
      (h \<in> set ?hs \<longrightarrow>
         Total h =
           (if sql_sum (map total_amount_charged (filter (\<lambda>s. upload_date s = Period h) db)) \<noteq> None \<and>
               sql_sum (map gst_amount (filter (\<lambda>s. upload_date s = Period h) db)) \<noteq> None
            then of_nat (length (filter (\<lambda>s. upload_date s = Period h) db)) else 0))"
    if d: "period = ''day'' \<and> fromDate = [] \<and> toDate = []"
  proof -
    from d have b: "buckets ?S period fromDate toDate db = Some ` set (map upload_date db)"
      by (auto simp: buckets_def period_of_day)
    then have "None \<notin> buckets ?S period fromDate toDate db" by auto
    then have dist: "distinct (map Period ?hs)" by (rule dst)
    have carry: "set (map Period ?hs) = set (map upload_date db)"
      by (simp only: st b) (simp add: image_image period_text_def)
    have once: "\<exists>!i. i < length ?hs \<and> Period (?hs ! i) = upload_date s" if s: "s \<in> set db" for s
    proof -
      from s carry have "upload_date s \<in> set (map Period ?hs)" by auto
      with dist show ?thesis by (rule distinct_map_Ex1)
    qed
    have tot: "Total h =
           (if sql_sum (map total_amount_charged (filter (\<lambda>s. upload_date s = Period h) db)) \<noteq> None \<and>
               sql_sum (map gst_amount (filter (\<lambda>s. upload_date s = Period h) db)) \<noteq> None
            then of_nat (length (filter (\<lambda>s. upload_date s = Period h) db)) else 0)"
      if h: "h \<in> set ?hs"
    proof -
      from h d have "h \<in> set (map Scan_history (query_groups ?S sql_sum ''day'' [] [] db))"
        by simp
      then show ?thesis by (rule day_row_Total)
    qed
    from dist carry once tot show ?thesis by blast
  qed
  have fmt: "parse_date (Format_2006_01_02 d) = Some d" if "valid_date d"
    using that by (rule parse_date_Format)
  have k_day: "period_of ?S ''day'' r = Some (upload_date r)"
    by (rule period_of_day)
  have k_week: "period_of ?S ''week'' r = ?S ''%Y-W%W'' (upload_date r)"
    and k_month: "period_of ?S ''month'' r = ?S ''%Y-%m'' (upload_date r)"
    and k_year: "period_of ?S ''year'' r = ?S ''%Y'' (upload_date r)"
    by (simp_all add: period_of_def groupExpr_def)
  from failed len srt st dst keys k_day k_week k_month k_year parsed fmt day
  show ?thesis unfolding res by blast
qed

lemmas calendar_defs = days_after_jan01_def days_after_monday_def days_since_epoch_def
  iso_weeks_in_year_def jan01_after_monday_def is_leap_def days_in_month_def week_W_def

lemma upt_1_12: "[Suc 0..<12] = [1, 2, 3, 4, 5, 6, 7, 8, 9, 10, 11]"
  by (simp add: upt_conv_Cons)

lemma iso_weeks_of_new_year:
  "iso_week new_years_eve = (2022, 52)"
  "iso_week new_years_day = (2022, 52)"
  by (simp_all add: iso_week_def calendar_defs upt_1_12 Let_def new_years_eve_def new_years_day_def)

lemma week_W_new_year:
  "week_W new_years_eve = 52"
  "week_W new_years_day = 0"
  by (simp_all add: calendar_defs upt_1_12 Let_def new_years_eve_def new_years_day_def)

lemma parse_new_year:
  "parse_date ''2022-12-31'' = Some new_years_eve"
  "parse_date ''2023-01-01'' = Some new_years_day"
  by code_simp+

lemma zero_pad_new_year:
  "zero_pad 4 2022 = ''2022''" "zero_pad 4 2023 = ''2023''" "zero_pad 2 52 = ''52''"
  "zero_pad 2 0 = ''00''" "zero_pad 2 12 = ''12''" "zero_pad 2 1 = ''01''"
  by code_simp+

lemma new_year_fields:
  "year new_years_eve = 2022" "month new_years_eve = 12" "day new_years_eve = 31"
  "year new_years_day = 2023" "month new_years_day = 1" "day new_years_day = 1"
  by (simp_all add: new_years_eve_def new_years_day_def)

lemma strftime_new_year:
  "sqlite_strftime other ''%Y-W%W'' ''2022-12-31'' = Some ''2022-W52''"
  "sqlite_strftime other ''%Y-W%W'' ''2023-01-01'' = Some ''2023-W00''"
  by (simp_all add: strftime_on_date(1) [OF parse_new_year(1)] strftime_on_date(1) [OF parse_new_year(2)]
      week_W_new_year zero_pad_new_year new_year_fields)

lemma first_monday_2022: "first_monday 2022 = 2"
  by (simp add: first_monday_def calendar_defs Let_def)

lemma days_after_jan01_new_years_eve: "days_after_jan01 new_years_eve = 364"
  by (simp add: days_after_jan01_def days_in_month_def is_leap_def upt_1_12 new_years_eve_def)

lemma weeks_of_new_year:
  "getHistory (sqlite_strftime unused_strftime) (sum_single unused_sum) unused_statement False
       ''week'' [] [] new_year_rows =
     [\<lparr> Period = ''2023-W00'', Revenue = Fin 75, GST = Fin 5,
         hCount125 = 0, hCount75 = 1, hCount0 = 0, Total = 1 \<rparr>,
      \<lparr> Period = ''2022-W52'', Revenue = Fin 125, GST = Fin 10,
         hCount125 = 1, hCount75 = 0, hCount0 = 0, Total = 1 \<rparr>]"
  by (simp add: getHistory_def plain_literal_def query_groups_def period_of_def groupExpr_def
      strftime_new_year periods_desc_def aggregate_group_def Scan_history_def
      new_year_rows_def)

lemma days_of_new_year:
  "getHistory (sqlite_strftime unused_strftime) (sum_single unused_sum) unused_statement False
       ''day'' [] [] new_year_rows =
     [\<lparr> Period = ''2023-01-01'', Revenue = Fin 75, GST = Fin 5,
         hCount125 = 0, hCount75 = 1, hCount0 = 0, Total = 1 \<rparr>,
      \<lparr> Period = ''2022-12-31'', Revenue = Fin 125, GST = Fin 10,
         hCount125 = 1, hCount75 = 0, hCount0 = 0, Total = 1 \<rparr>]"
  by (simp add: getHistory_def plain_literal_def query_groups_def period_of_def groupExpr_def
      periods_desc_def aggregate_group_def Scan_history_def
      new_year_rows_def)

lemma hd_new_year_rows: "upload_date (hd new_year_rows) = ''2022-12-31''"
  by (simp add: new_year_rows_def)

lemma valid_new_years_eve: "valid_date new_years_eve"
  by (simp add: valid_date_def new_years_eve_def days_in_month_def is_leap_def)

lemma sums_of_new_years_day:
  "sum_single unused_sum (map total_amount_charged
      (filter (\<lambda>s. upload_date s = ''2023-01-01'') new_year_rows)) = Some (Fin 75)"
  "sum_single unused_sum (map gst_amount
      (filter (\<lambda>s. upload_date s = ''2023-01-01'') new_year_rows)) = Some (Fin 5)"
  "length (filter (\<lambda>s. upload_date s = ''2023-01-01'') new_year_rows) = 1"
  by (simp_all add: new_year_rows_def)

theorem history_buckets_witness:
  "plain_literal [] \<and>
   parse_date (upload_date (hd new_year_rows)) = Some new_years_eve \<and>
   valid_date new_years_eve \<and>
   getHistory (sqlite_strftime unused_strftime) (sum_single unused_sum) unused_statement False
       ''day'' [] [] new_year_rows =
     [\<lparr> Period = ''2023-01-01'', Revenue = Fin 75, GST = Fin 5,
         hCount125 = 0, hCount75 = 1, hCount0 = 0, Total = 1 \<rparr>,
      \<lparr> Period = ''2022-12-31'', Revenue = Fin 125, GST = Fin 10,
         hCount125 = 1, hCount75 = 0, hCount0 = 0, Total = 1 \<rparr>] \<and>
   set (map Period (getHistory (sqlite_strftime unused_strftime) (sum_single unused_sum)
          unused_statement False ''day'' [] [] new_year_rows)) = set (map upload_date new_year_rows) \<and>
   Total (hd (getHistory (sqlite_strftime unused_strftime) (sum_single unused_sum)
          unused_statement False ''day'' [] [] new_year_rows)) =
     of_nat (length (filter (\<lambda>s. upload_date s = ''2023-01-01'') new_year_rows)) \<and>
   getHistory (sqlite_strftime unused_strftime) (sum_single unused_sum) unused_statement True
       ''day'' [] [] new_year_rows = [] \<and>
   period_of (sqlite_strftime unused_strftime) ''week'' (hd new_year_rows) = Some ''2022-W52'' \<and>
   week_W new_years_eve = (364 - 2) div 7 + 1 \<and>
   parse_date (Format_2006_01_02 new_years_eve) = Some new_years_eve"
proof -
  let ?hs = "getHistory (sqlite_strftime unused_strftime) (sum_single unused_sum) unused_statement
      False ''day'' [] [] new_year_rows"
  have p: "parse_date (upload_date (hd new_year_rows)) = Some new_years_eve"
    by (simp only: hd_new_year_rows parse_new_year)
  have m: "hd ?hs \<in> set ?hs" and ph: "Period (hd ?hs) = ''2023-01-01''"
    by (simp_all add: days_of_new_year)
  note inst = history_buckets [OF plain_literal_empty plain_literal_empty refl,
      where other = unused_strftime and sql_sum = "sum_single unused_sum"
        and other_statement = unused_statement and period = "''day''" and db = new_year_rows
        and r = "hd new_year_rows" and d = new_years_eve and h = "hd ?hs"]
  note rest1 = inst [THEN conjunct2]
  note rest5 = rest1 [THEN conjunct2, THEN conjunct2, THEN conjunct2, THEN conjunct2]
  note rest10 = rest5 [THEN conjunct2, THEN conjunct2, THEN conjunct2, THEN conjunct2, THEN conjunct2]
  note parsed = rest10 [THEN conjunct1, THEN mp, OF p]
  note day = rest10 [THEN conjunct2, THEN conjunct2, THEN mp, OF conjI [OF refl conjI [OF refl refl]]]
  have f: "getHistory (sqlite_strftime unused_strftime) (sum_single unused_sum)
      unused_statement True ''day'' [] [] new_year_rows = []"
    by (rule inst [THEN conjunct1])
  have s: "set (map Period ?hs) = set (map upload_date new_year_rows)"
    by (rule day [THEN conjunct1])
  have "Total (hd ?hs) =
      (if sum_single unused_sum (map total_amount_charged
             (filter (\<lambda>s. upload_date s = Period (hd ?hs)) new_year_rows)) \<noteq> None \<and>
          sum_single unused_sum (map gst_amount
             (filter (\<lambda>s. upload_date s = Period (hd ?hs)) new_year_rows)) \<noteq> None
       then of_nat (length (filter (\<lambda>s. upload_date s = Period (hd ?hs)) new_year_rows)) else 0)"
    by (rule day [THEN conjunct2, THEN conjunct2, THEN conjunct2, THEN mp, OF m])
  then have t: "Total (hd ?hs) =
      of_nat (length (filter (\<lambda>s. upload_date s = ''2023-01-01'') new_year_rows))"
    by (simp only: ph sums_of_new_years_day) simp
  have "period_of (sqlite_strftime unused_strftime) ''week'' (hd new_year_rows) =
      Some (zero_pad 4 (year new_years_eve) @ ''-W'' @ zero_pad 2 (week_W new_years_eve))"
    by (rule parsed [THEN conjunct1])
  then have w: "period_of (sqlite_strftime unused_strftime) ''week'' (hd new_year_rows) = Some ''2022-W52''"
    by (simp add: week_W_new_year zero_pad_new_year new_year_fields)
  have "week_W new_years_eve =
      (if days_after_jan01 new_years_eve < first_monday (year new_years_eve) then 0
       else (days_after_jan01 new_years_eve - first_monday (year new_years_eve)) div 7 + 1)"
    by (rule parsed [THEN conjunct2, THEN conjunct2, THEN conjunct2, THEN conjunct2])
  then have n: "week_W new_years_eve = (364 - 2) div 7 + 1"
    by (simp only: new_year_fields first_monday_2022 days_after_jan01_new_years_eve) simp
  have v: "parse_date (Format_2006_01_02 new_years_eve) = Some new_years_eve"
    by (rule rest10 [THEN conjunct2, THEN conjunct1, THEN mp, OF valid_new_years_eve])
  show ?thesis
    by (intro conjI plain_literal_empty p valid_new_years_eve days_of_new_year s t f w n v)
qed

text \<open>
  C5, as the claim has it: the week bucket is the ISO week of the year. 31 December 2022, a
  Saturday, and 1 January 2023, the Sunday after it, lie in one ISO week, week 52 of 2022.
  \<^verbatim>\<open>getHistory\<close> puts the two rows in two buckets, \<^verbatim>\<open>2022-W52\<close> and \<^verbatim>\<open>2023-W00\<close>, and no ISO
  week has the number 00.
\<close>

theorem week_bucket_is_not_iso_week:
  "parse_date ''2022-12-31'' = Some new_years_eve \<and>
   parse_date ''2023-01-01'' = Some new_years_day \<and>
   iso_week new_years_eve = (2022, 52) \<and>
   iso_week new_years_day = (2022, 52) \<and>
   getHistory (sqlite_strftime unused_strftime) (sum_single unused_sum) unused_statement False
       ''week'' [] [] new_year_rows =
     [\<lparr> Period = ''2023-W00'', Revenue = Fin 75, GST = Fin 5,
         hCount125 = 0, hCount75 = 1, hCount0 = 0, Total = 1 \<rparr>,
      \<lparr> Period = ''2022-W52'', Revenue = Fin 125, GST = Fin 10,
         hCount125 = 1, hCount75 = 0, hCount0 = 0, Total = 1 \<rparr>]"
  by (simp only: parse_new_year iso_weeks_of_new_year weeks_of_new_year simp_thms)

end
